theory Spec2Isabelle
  imports Complex_Main "HOL-Library.Sublist" "HOL-Library.Multiset"
begin

section \<open>Python strings\<close>

text \<open>
  A Python \<open>str\<close> is modelled as a \<open>string\<close>. The character classes below are the
  ones Python uses on ASCII text: \<open>str.isspace\<close> (also the class of \<open>str.split()\<close>,
  \<open>str.strip()\<close> and the regular expression \<open>\s\<close>), \<open>str.isdigit\<close>,
  \<open>str.isalpha\<close>, and the class \<open>\w\<close> of the \<open>re\<close> module. Characters beyond
  ASCII are classified as none of these and left alone by \<open>lower\<close>; text is taken to be
  ASCII.
\<close>

definition code :: "char \<Rightarrow> nat" where
  "code c = of_char c"

definition py_isspace :: "char \<Rightarrow> bool" where
  "py_isspace c = ((9 \<le> code c \<and> code c \<le> 13) \<or> (28 \<le> code c \<and> code c \<le> 32))"

definition is_digit_char :: "char \<Rightarrow> bool" where
  "is_digit_char c = (48 \<le> code c \<and> code c \<le> 57)"

definition is_upper_char :: "char \<Rightarrow> bool" where
  "is_upper_char c = (65 \<le> code c \<and> code c \<le> 90)"

definition is_alpha_char :: "char \<Rightarrow> bool" where
  "is_alpha_char c = (is_upper_char c \<or> (97 \<le> code c \<and> code c \<le> 122))"

definition word_char :: "char \<Rightarrow> bool" where
  \<comment> \<open>the class \<open>\w\<close>\<close>
  "word_char c = (is_alpha_char c \<or> is_digit_char c \<or> c = CHR ''_'')"

definition lower_char :: "char \<Rightarrow> char" where
  "lower_char c = (if is_upper_char c then char_of (code c + 32) else c)"

definition py_lower :: "string \<Rightarrow> string" where
  "py_lower s = map lower_char s"

definition py_strip :: "string \<Rightarrow> string" where
  "py_strip s = rev (dropWhile py_isspace (rev (dropWhile py_isspace s)))"

text \<open>\<open>s.split()\<close>: the maximal runs of characters that are not whitespace.\<close>

fun split_from :: "string \<Rightarrow> string \<Rightarrow> string list" where
  "split_from cur [] = (if cur = [] then [] else [cur])"
| "split_from cur (c # cs) =
     (if py_isspace c then (if cur = [] then split_from [] cs else cur # split_from [] cs)
      else split_from (cur @ [c]) cs)"

definition py_split :: "string \<Rightarrow> string list" where
  "py_split s = split_from [] s"

definition py_isdigit :: "string \<Rightarrow> bool" where
  "py_isdigit s = (s \<noteq> [] \<and> list_all is_digit_char s)"

definition py_isalpha :: "string \<Rightarrow> bool" where
  "py_isalpha s = (s \<noteq> [] \<and> list_all is_alpha_char s)"

text \<open>\<open>w in text\<close> on strings: \<open>w\<close> occurs in \<open>text\<close> as a contiguous piece.\<close>

fun py_in :: "string \<Rightarrow> string \<Rightarrow> bool" where
  "py_in w [] = (w = [])"
| "py_in w (c # cs) = (prefix w (c # cs) \<or> py_in w cs)"

section \<open>Mentions\<close>

text \<open>
  \<open>extract_mentions\<close> is \<open>re.findall(r'@(\w+)', text)\<close>: scanning from the left, an
  \<open>@\<close> followed by at least one word character matches together with the longest run of
  word characters after it, the run is the reported group, and the scan goes on behind
  the match.
\<close>

function extract_mentions :: "string \<Rightarrow> string list" where
  "extract_mentions [] = []"
| "extract_mentions (c # cs) =
     (if c = CHR ''@'' \<and> takeWhile word_char cs \<noteq> []
      then takeWhile word_char cs # extract_mentions (dropWhile word_char cs)
      else extract_mentions cs)"
  by pat_completeness auto
termination
  by (relation "measure length") (auto simp: length_dropWhile_le less_Suc_eq_le)

section \<open>The document store\<close>

text \<open>
  An \<open>ObjectId\<close> is a value of the type \<open>oid\<close>; \<open>str_of\<close> is Python's \<open>str\<close> on it, the 24
  hexadecimal digits in lower case. \<open>ObjectId(x)\<close> accepts a string of 24 hexadecimal
  digits in either case and raises \<open>InvalidId\<close> on any other string, so two strings that
  differ in the case of a digit name the same \<open>ObjectId\<close>. The \<open>_id\<close> of a document is an
  \<open>oid\<close>; every other field that holds an identifier holds a string, as in the source:
  the \<open>str\<close> of an \<open>_id\<close>, or a string of the request as it came.
\<close>

definition lower_hex :: "char \<Rightarrow> bool" where
  "lower_hex c = (c \<in> set ''0123456789abcdef'')"

definition hex_digit :: "char \<Rightarrow> bool" where
  "hex_digit c = (c \<in> set ''0123456789abcdefABCDEF'')"

definition hex_lower :: "char \<Rightarrow> char" where
  "hex_lower c =
     (if c = CHR ''A'' then CHR ''a'' else if c = CHR ''B'' then CHR ''b''
      else if c = CHR ''C'' then CHR ''c'' else if c = CHR ''D'' then CHR ''d''
      else if c = CHR ''E'' then CHR ''e'' else if c = CHR ''F'' then CHR ''f'' else c)"

typedef oid = "{x :: string. length x = 24 \<and> list_all lower_hex x}"
  morphisms str_of Oid
proof
  show "replicate 24 (CHR ''0'') \<in> {x :: string. length x = 24 \<and> list_all lower_hex x}"
    by (simp add: lower_hex_def list_all_iff)
qed

definition ObjectId :: "string \<Rightarrow> oid option" where
  "ObjectId x =
     (if length x = 24 \<and> list_all hex_digit x then Some (Oid (map hex_lower x)) else None)"

text \<open>
  The collections of the database hold documents in insertion order; \<open>find_one\<close> returns
  the first document that matches. The \<open>created_at\<close> fields (the wall clock) are left out.
\<close>

datatype NotificationType = ANSWER | COMMENT | MENTION | ACCEPTED_ANSWER

record user =
  u_id :: oid
  username :: string
  role :: string

record question =
  q_id :: oid
  q_title :: string
  q_description :: string
  q_tags :: "string list"
  q_user_id :: string
  q_answers :: "string list"
  q_accepted_answer :: "string option"
  q_toxic_score :: rat

record answer =
  a_id :: oid
  a_question_id :: string
  a_user_id :: string
  a_content :: string
  a_votes :: int
  a_is_accepted :: bool
  a_toxic_score :: rat
  a_ai_generated :: bool

record notification =
  n_user_id :: string
  n_from_user_id :: string
  n_type :: NotificationType
  n_message :: string
  n_question_id :: "string option"
  n_answer_id :: "string option"
  n_read :: bool

text \<open>
  The module \<open>database\<close> that provides the collections is not part of the sources, so what
  \<open>await notifications_collection.insert_one(doc)\<close> does is a parameter of the store:
  the document is stored and the statement completes; or the document is stored and the
  statement raises afterwards (what \<open>await\<close> does with the result of a collection whose
  calls return at once, the way every other call of the handlers uses the collections);
  or the driver raises and nothing is stored. The other calls on the collections
  (\<open>find_one\<close>, \<open>update_one\<close> and so on) are taken to return.
\<close>

datatype insert_outcome = Completes | Stores_then_raises | Raises_unstored

datatype exn = HTTPException nat string | TypeError | DriverError | InvalidId

datatype 'a result = Return 'a | Raise exn

record db =
  users :: "user list"
  questions :: "question list"
  answers :: "answer list"
  notifications :: "notification list"
  await_insert :: "notification \<Rightarrow> insert_outcome"

definition insert_notification :: "notification \<Rightarrow> db \<Rightarrow> unit result \<times> db" where
  "insert_notification doc s =
     (case await_insert s doc of
        Completes \<Rightarrow> (Return (), s\<lparr>notifications := notifications s @ [doc]\<rparr>)
      | Stores_then_raises \<Rightarrow> (Raise TypeError, s\<lparr>notifications := notifications s @ [doc]\<rparr>)
      | Raises_unstored \<Rightarrow> (Raise DriverError, s))"

definition create_notification ::
  "string \<Rightarrow> string \<Rightarrow> NotificationType \<Rightarrow> string \<Rightarrow> string option \<Rightarrow> string option \<Rightarrow> db
     \<Rightarrow> unit result \<times> db" where
  "create_notification user_id from_user_id notification_type message question_id answer_id s =
     (let notification_doc =
            \<lparr>n_user_id = user_id, n_from_user_id = from_user_id, n_type = notification_type,
             n_message = message, n_question_id = question_id, n_answer_id = answer_id,
             n_read = False\<rparr>
      in if user_id \<noteq> from_user_id then insert_notification notification_doc s
         else (Return (), s))"

text \<open>
  The triggers take strings and look documents up through \<open>ObjectId\<close>; an \<open>InvalidId\<close> is
  not caught in them.
\<close>

definition notify_new_answer :: "string \<Rightarrow> string \<Rightarrow> string \<Rightarrow> db \<Rightarrow> unit result \<times> db" where
  "notify_new_answer question_id answer_id answerer_id s =
     (case ObjectId question_id of
        None \<Rightarrow> (Raise InvalidId, s)
      | Some qid \<Rightarrow>
          (case find (\<lambda>q. q_id q = qid) (questions s) of
             None \<Rightarrow> (Return (), s)
           | Some question \<Rightarrow>
               (case ObjectId answerer_id of
                  None \<Rightarrow> (Raise InvalidId, s)
                | Some uid \<Rightarrow>
                    (let answerer = find (\<lambda>u. u_id u = uid) (users s);
                         answerer_username =
                           (case answerer of Some u \<Rightarrow> username u | None \<Rightarrow> ''Someone'');
                         message = answerer_username @ '' answered your question: ''
                                     @ q_title question
                     in create_notification (q_user_id question) answerer_id ANSWER message
                          (Some question_id) (Some answer_id) s))))"

definition notify_accepted_answer :: "string \<Rightarrow> string \<Rightarrow> db \<Rightarrow> unit result \<times> db" where
  "notify_accepted_answer answer_id question_author_id s =
     (case ObjectId answer_id of
        None \<Rightarrow> (Raise InvalidId, s)
      | Some aid \<Rightarrow>
          (case find (\<lambda>a. a_id a = aid) (answers s) of
             None \<Rightarrow> (Return (), s)
           | Some answer \<Rightarrow>
               (case ObjectId (a_question_id answer) of
                  None \<Rightarrow> (Raise InvalidId, s)
                | Some qid \<Rightarrow>
                    (case find (\<lambda>q. q_id q = qid) (questions s) of
                       None \<Rightarrow> (Return (), s)
                     | Some question \<Rightarrow>
                         (case ObjectId question_author_id of
                            None \<Rightarrow> (Raise InvalidId, s)
                          | Some uid \<Rightarrow>
                              (let question_author = find (\<lambda>u. u_id u = uid) (users s);
                                   author_username =
                                     (case question_author of Some u \<Rightarrow> username u
                                      | None \<Rightarrow> ''Someone'');
                                   message = author_username @ '' accepted your answer to: ''
                                               @ q_title question
                               in create_notification (a_user_id answer) question_author_id
                                    ACCEPTED_ANSWER message (Some (a_question_id answer))
                                    (Some answer_id) s))))))"

text \<open>The loop of \<open>notify_mentions\<close> over the extracted names; a raise ends it.\<close>

fun mention_loop ::
  "string \<Rightarrow> string \<Rightarrow> string option \<Rightarrow> string option \<Rightarrow> string list \<Rightarrow> db \<Rightarrow> unit result \<times> db" where
  "mention_loop from_username from_user_id question_id answer_id [] s = (Return (), s)"
| "mention_loop from_username from_user_id question_id answer_id (name # rest) s =
     (case find (\<lambda>u. username u = name) (users s) of
        None \<Rightarrow> mention_loop from_username from_user_id question_id answer_id rest s
      | Some mentioned_user \<Rightarrow>
          (case create_notification (str_of (u_id mentioned_user)) from_user_id MENTION
                  (from_username @ '' mentioned you in a post'') question_id answer_id s of
             (Raise e, s') \<Rightarrow> (Raise e, s')
           | (Return _, s') \<Rightarrow>
               mention_loop from_username from_user_id question_id answer_id rest s'))"

definition notify_mentions ::
  "string \<Rightarrow> string \<Rightarrow> string option \<Rightarrow> string option \<Rightarrow> db \<Rightarrow> unit result \<times> db" where
  "notify_mentions content from_user_id question_id answer_id s =
     (let mentions = extract_mentions content
      in if mentions = [] then (Return (), s)
         else (case ObjectId from_user_id of
                 None \<Rightarrow> (Raise InvalidId, s)
               | Some uid \<Rightarrow>
                   (let from_user = find (\<lambda>u. u_id u = uid) (users s);
                        from_username =
                          (case from_user of Some u \<Rightarrow> username u | None \<Rightarrow> ''Someone'')
                    in mention_loop from_username from_user_id question_id answer_id mentions s)))"

section \<open>The models behind the handlers\<close>

text \<open>
  What the pretrained models and the runtime contribute is a parameter: whether the
  optional dependencies were imported (\<open>AI_AVAILABLE\<close> of \<open>toxic_spam_model\<close> and of
  \<open>auto_tag\<close>), the probability the classifier gives to the class "toxic", the keywords
  with scores that \<open>kw_model.extract_keywords\<close> returns for a text and a \<open>top_n\<close>, whether
  every token of a word is tagged NOUN, PROPN or ADJ, the order in which \<open>list(set(xs))\<close>
  enumerates the set built from \<open>xs\<close>, and the text the chat model answers with. A float is
  read as the rational number it denotes. The models are taken to answer: a classifier
  that raises (which \<open>create_answer\<close> alone would catch, going on with the verdict "not
  toxic" and the score 0) is outside the embedding.
\<close>

record env =
  toxic_ai_available :: bool
  toxic_prob :: "string \<Rightarrow> rat"
  tag_ai_available :: bool
  extract_keywords :: "string \<Rightarrow> nat \<Rightarrow> (string \<times> rat) list"
  pos_ok :: "string \<Rightarrow> bool"
  set_order :: "string list \<Rightarrow> string list"
  generate_chatgpt_answer :: "string \<Rightarrow> string"

subsection \<open>Toxicity\<close>

definition toxic_words :: "string list" where
  "toxic_words = [''spam'', ''hate'', ''toxic'', ''abuse'', ''inappropriate'']"

definition is_toxic :: "env \<Rightarrow> string \<Rightarrow> rat \<Rightarrow> bool \<times> rat" where
  "is_toxic e text threshold =
     (if \<not> toxic_ai_available e
      then (let text_lower = py_lower text
            in if list_ex (\<lambda>word. py_in word text_lower) toxic_words then (True, 4 / 5)
               else (False, 1 / 10))
      else (let toxic_score = toxic_prob e text in (toxic_score \<ge> threshold, toxic_score)))"

subsection \<open>Tags\<close>

text \<open>
  \<open>re.sub(r"<.*?>", "", text)\<close>: an opening angle bracket starts a match when a closing
  one follows with no line feed in between; the match ends at the first closing bracket.
\<close>

definition tag_closes :: "string \<Rightarrow> bool" where
  "tag_closes cs =
     (let body = takeWhile (\<lambda>x. x \<noteq> CHR ''>'') cs
      in length body < length cs \<and> CHR 0x0A \<notin> set body)"

function strip_tags :: "string \<Rightarrow> string" where
  "strip_tags [] = []"
| "strip_tags (c # cs) =
     (if c = CHR ''<'' \<and> tag_closes cs
      then strip_tags (tl (dropWhile (\<lambda>x. x \<noteq> CHR ''>'') cs))
      else c # strip_tags cs)"
  by pat_completeness auto
termination
proof (relation "measure length")
  show "wf (measure length)" by simp
next
  fix c :: char and cs :: string
  have "length (tl (dropWhile (\<lambda>x. x \<noteq> CHR ''>'') cs)) \<le> length cs"
    using length_dropWhile_le [of "\<lambda>x. x \<noteq> CHR ''>''" cs] by simp
  then show "(tl (dropWhile (\<lambda>x. x \<noteq> CHR ''>'') cs), c # cs) \<in> measure length"
    by simp
next
  fix c :: char and cs :: string
  show "(cs, c # cs) \<in> measure length" by simp
qed

definition clean_text :: "string \<Rightarrow> string" where
  "clean_text text =
     py_strip (py_lower (filter (\<lambda>c. word_char c \<or> py_isspace c) (strip_tags text)))"

definition is_good_single_word :: "env \<Rightarrow> string \<Rightarrow> bool" where
  "is_good_single_word e word =
     (if \<not> tag_ai_available e
      then (length (py_split word) = 1 \<and> \<not> py_isdigit word \<and> length word > 2
            \<and> py_isalpha word)
      else (length (py_split word) = 1 \<and> pos_ok e word \<and> \<not> py_isdigit word
            \<and> length word > 2))"

fun fallback_loop :: "env \<Rightarrow> nat \<Rightarrow> string list \<Rightarrow> string list \<Rightarrow> string set \<Rightarrow> string list" where
  "fallback_loop e top_k [] tags seen = tags"
| "fallback_loop e top_k (word # words) tags seen =
     (if word \<notin> seen \<and> is_good_single_word e word \<and> length word > 3
      then (if length (tags @ [word]) \<ge> top_k then tags @ [word]
            else fallback_loop e top_k words (tags @ [word]) (insert word seen))
      else fallback_loop e top_k words tags seen)"

definition extract_tags_fallback :: "env \<Rightarrow> string \<Rightarrow> string \<Rightarrow> nat \<Rightarrow> string list" where
  "extract_tags_fallback e title body top_k =
     (let text = clean_text (title @ '' '' @ body); words = py_split text
      in fallback_loop e top_k words [] {})"

fun keyword_loop ::
  "env \<Rightarrow> nat \<Rightarrow> (string \<times> rat) list \<Rightarrow> string list \<Rightarrow> string set \<Rightarrow> string list" where
  "keyword_loop e top_k [] tags seen = tags"
| "keyword_loop e top_k ((kw0, score) # rest) tags seen =
     (let kw = py_strip (py_lower kw0)
      in if kw \<in> seen \<or> \<not> is_good_single_word e kw then keyword_loop e top_k rest tags seen
         else (if length (tags @ [kw]) \<ge> top_k then tags @ [kw]
               else keyword_loop e top_k rest (tags @ [kw]) (insert kw seen)))"

definition extract_single_word_tags :: "env \<Rightarrow> string \<Rightarrow> string \<Rightarrow> nat \<Rightarrow> string list" where
  "extract_single_word_tags e title body top_k =
     (if \<not> tag_ai_available e then extract_tags_fallback e title body top_k
      else (let text = clean_text (title @ '' '' @ body);
                raw_keywords = extract_keywords e text (top_k + 20)
            in keyword_loop e top_k raw_keywords [] {}))"

record tagged_question =
  tq_title :: string
  tq_body :: string
  tq_tags :: "string list"

definition auto_tag_question :: "env \<Rightarrow> string \<Rightarrow> string \<Rightarrow> nat \<Rightarrow> tagged_question" where
  "auto_tag_question e title body top_k =
     \<lparr>tq_title = title, tq_body = body,
      tq_tags = extract_single_word_tags e title body top_k\<rparr>"

subsection \<open>Search\<close>

text \<open>
  \<open>smart_search\<close> of \<open>krishm/smart_search.py\<close>. The similarity of the query to a question,
  \<open>util.cos_sim(model.encode(query), q["embedding"]).item()\<close>, is the parameter \<open>sim\<close>.
  \<open>results.sort(key=..., reverse=True)\<close> is a stable sort by descending score, and
  \<open>top_k\<close> is a number of results, a natural number.
\<close>

definition smart_search :: "(string \<Rightarrow> 'q \<Rightarrow> rat) \<Rightarrow> string \<Rightarrow> 'q list \<Rightarrow> nat \<Rightarrow> ('q \<times> rat) list" where
  "smart_search sim query qs top_k =
     (let results = map (\<lambda>q. (q, sim query q)) qs;
          results = sort_key (\<lambda>x. - snd x) results
      in take top_k results)"

section \<open>The route handlers\<close>

text \<open>
  The collection operations the handlers use: \<open>update_one\<close> and \<open>delete_one\<close> act on the
  first matching document, \<open>update_many\<close> on all of them. The \<open>_id\<close>
  that \<open>insert_one\<close> gives to the new document is the argument \<open>new_id\<close> of a handler.
  The authenticated user (\<open>get_current_user\<close>) is the argument \<open>current_user\<close>. The
  identifiers of a request (\<open>question_id\<close>, \<open>answer_id\<close>) are strings, as they come in
  the path or the query. An exception that leaves a handler is the handler's result, next
  to the store as it is then.
\<close>

fun update_one :: "('a \<Rightarrow> bool) \<Rightarrow> ('a \<Rightarrow> 'a) \<Rightarrow> 'a list \<Rightarrow> 'a list" where
  "update_one P f [] = []"
| "update_one P f (x # xs) = (if P x then f x # xs else x # update_one P f xs)"

definition update_many :: "('a \<Rightarrow> bool) \<Rightarrow> ('a \<Rightarrow> 'a) \<Rightarrow> 'a list \<Rightarrow> 'a list" where
  "update_many P f xs = map (\<lambda>x. if P x then f x else x) xs"

fun delete_one :: "('a \<Rightarrow> bool) \<Rightarrow> 'a list \<Rightarrow> 'a list" where
  "delete_one P [] = []"
| "delete_one P (x # xs) = (if P x then xs else x # delete_one P xs)"

record question_response =
  qr_id :: string
  qr_title :: string
  qr_description :: string
  qr_tags :: "string list"
  qr_user_id :: string
  qr_answers :: "string list"
  qr_accepted_answer :: "string option"
  qr_answer_count :: nat
  qr_username :: string

record answer_response =
  ar_id :: string
  ar_question_id :: string
  ar_user_id :: string
  ar_content :: string
  ar_votes :: int
  ar_is_accepted :: bool
  ar_username :: string
  ar_user_role :: string

definition question_guidelines :: string where
  "question_guidelines = ''Your question does not meet our community guidelines. Please ensure your content is respectful and appropriate for all users.''"

definition answer_guidelines :: string where
  "answer_guidelines = ''Your answer does not meet our community guidelines. Please ensure your content is respectful and appropriate for all users.''"

definition create_question ::
  "env \<Rightarrow> string \<Rightarrow> string \<Rightarrow> string list \<Rightarrow> user \<Rightarrow> oid \<Rightarrow> db \<Rightarrow> question_response result \<times> db" where
  "create_question e title description tags current_user new_id s =
     (let combined_text = title @ '' '' @ description;
          (is_toxic_content, toxic_score) = is_toxic e combined_text (1 / 2)
      in if is_toxic_content then (Raise (HTTPException 400 question_guidelines), s)
         else
           (let ai_tagged_question = auto_tag_question e title description 8;
                ai_suggested_tags = tq_tags ai_tagged_question;
                final_tags = take 10 (set_order e (tags @ ai_suggested_tags));
                question_doc =
                  \<lparr>q_id = new_id, q_title = title, q_description = description,
                   q_tags = final_tags, q_user_id = str_of (u_id current_user), q_answers = [],
                   q_accepted_answer = None, q_toxic_score = toxic_score\<rparr>;
                s1 = s\<lparr>questions := questions s @ [question_doc]\<rparr>;
                created_question = find (\<lambda>q. q_id q = new_id) (questions s1)
            in case notify_mentions combined_text (str_of (u_id current_user))
                      (Some (str_of new_id)) None s1 of
                 (Raise x, s2) \<Rightarrow> (Raise x, s2)
               | (Return _, s2) \<Rightarrow>
                   (case created_question of
                      None \<Rightarrow> (Raise TypeError, s2)
                    | Some cq \<Rightarrow>
                        (Return \<lparr>qr_id = str_of (q_id cq), qr_title = q_title cq,
                                 qr_description = q_description cq, qr_tags = q_tags cq,
                                 qr_user_id = q_user_id cq, qr_answers = q_answers cq,
                                 qr_accepted_answer = q_accepted_answer cq,
                                 qr_answer_count = length (q_answers cq),
                                 qr_username = username current_user\<rparr>, s2))))"

text \<open>
  In \<open>create_answer\<close> the two notification calls are inside
  \<open>try: ... except Exception: pass\<close>: a raise in the first one skips the second, and
  either way the handler goes on to its response.
\<close>

definition answer_notifications :: "string \<Rightarrow> string \<Rightarrow> string \<Rightarrow> string \<Rightarrow> db \<Rightarrow> db" where
  "answer_notifications question_id answer_id content user_id s =
     (case notify_new_answer question_id answer_id user_id s of
        (Raise x, s1) \<Rightarrow> s1
      | (Return _, s1) \<Rightarrow>
          snd (notify_mentions content user_id (Some question_id) (Some answer_id) s1))"

text \<open>
  The question is looked up through \<open>ObjectId(question_id)\<close>; the answer document takes
  the string \<open>question_id\<close> of the request as it is.
\<close>

definition create_answer ::
  "env \<Rightarrow> string \<Rightarrow> string \<Rightarrow> user \<Rightarrow> oid \<Rightarrow> db \<Rightarrow> answer_response result \<times> db" where
  "create_answer e question_id content current_user new_id s =
     (case ObjectId question_id of
        None \<Rightarrow> (Raise (HTTPException 400 ''Invalid question ID''), s)
      | Some qid \<Rightarrow>
     (case find (\<lambda>q. q_id q = qid) (questions s) of
        None \<Rightarrow> (Raise (HTTPException 404 ''Question not found''), s)
      | Some question \<Rightarrow>
          (let (is_toxic_content, toxic_score) = is_toxic e content (1 / 2)
           in if is_toxic_content then (Raise (HTTPException 400 answer_guidelines), s)
              else
                (let answer_doc =
                       \<lparr>a_id = new_id, a_question_id = question_id,
                        a_user_id = str_of (u_id current_user), a_content = content,
                        a_votes = 0, a_is_accepted = False, a_toxic_score = toxic_score,
                        a_ai_generated = False\<rparr>;
                     s1 = s\<lparr>answers := answers s @ [answer_doc]\<rparr>;
                     s2 = s1\<lparr>questions :=
                              update_one (\<lambda>q. q_id q = qid)
                                (\<lambda>q. q\<lparr>q_answers := q_answers q @ [str_of new_id]\<rparr>)
                                (questions s1)\<rparr>;
                     created_answer = find (\<lambda>a. a_id a = new_id) (answers s2);
                     s3 = answer_notifications question_id (str_of new_id) content
                            (str_of (u_id current_user)) s2
                 in case created_answer of
                      None \<Rightarrow>
                        (Raise (HTTPException 500 ''Failed to create answer. Please try again.''), s3)
                    | Some ca \<Rightarrow>
                        (Return \<lparr>ar_id = str_of (a_id ca), ar_question_id = a_question_id ca,
                                 ar_user_id = a_user_id ca, ar_content = a_content ca,
                                 ar_votes = a_votes ca, ar_is_accepted = a_is_accepted ca,
                                 ar_username = username current_user,
                                 ar_user_role = role current_user\<rparr>, s3)))))"

definition create_ai_answer ::
  "env \<Rightarrow> string \<Rightarrow> user \<Rightarrow> oid \<Rightarrow> db \<Rightarrow> answer_response result \<times> db" where
  "create_ai_answer e question_id current_user new_id s =
     (case ObjectId question_id of
        None \<Rightarrow> (Raise (HTTPException 400 ''Invalid question ID''), s)
      | Some qid \<Rightarrow>
     (case find (\<lambda>q. q_id q = qid) (questions s) of
        None \<Rightarrow> (Raise (HTTPException 404 ''Question not found''), s)
      | Some question \<Rightarrow>
          if role current_user \<notin> set [''admin'', ''user'']
          then (Raise (HTTPException 403 ''Insufficient permissions to generate AI answers''), s)
          else
            (let question_text = q_title question @ '' - '' @ q_description question;
                 ai_content = generate_chatgpt_answer e question_text
             in if prefix ''Error:'' ai_content
                then (Raise (HTTPException 500
                       ''AI answer generation is currently unavailable. Please try again later.''), s)
                else
                  (let answer_doc =
                         \<lparr>a_id = new_id, a_question_id = question_id,
                          a_user_id = str_of (u_id current_user), a_content = ai_content,
                          a_votes = 0, a_is_accepted = False, a_toxic_score = 0,
                          a_ai_generated = True\<rparr>;
                       s1 = s\<lparr>answers := answers s @ [answer_doc]\<rparr>;
                       s2 = s1\<lparr>questions :=
                                update_one (\<lambda>q. q_id q = qid)
                                  (\<lambda>q. q\<lparr>q_answers := q_answers q @ [str_of new_id]\<rparr>)
                                  (questions s1)\<rparr>;
                       created_answer = find (\<lambda>a. a_id a = new_id) (answers s2);
                       s3 = snd (notify_new_answer question_id (str_of new_id)
                                   (str_of (u_id current_user)) s2)
                   in case created_answer of
                        None \<Rightarrow>
                          (Raise (HTTPException 500
                             ''Failed to generate AI answer. Please try again.''), s3)
                      | Some ca \<Rightarrow>
                          (Return \<lparr>ar_id = str_of (a_id ca), ar_question_id = a_question_id ca,
                                   ar_user_id = a_user_id ca, ar_content = a_content ca,
                                   ar_votes = a_votes ca, ar_is_accepted = a_is_accepted ca,
                                   ar_username = username current_user @ '' (AI-assisted)'',
                                   ar_user_role = role current_user\<rparr>, s3)))))"

definition vote_answer :: "string \<Rightarrow> string \<Rightarrow> user \<Rightarrow> db \<Rightarrow> (string \<times> int) result \<times> db" where
  "vote_answer answer_id action current_user s =
     (case ObjectId answer_id of
        None \<Rightarrow> (Raise (HTTPException 400 ''Invalid answer ID''), s)
      | Some aid \<Rightarrow>
     (case find (\<lambda>a. a_id a = aid) (answers s) of
        None \<Rightarrow> (Raise (HTTPException 404 ''Answer not found''), s)
      | Some answer \<Rightarrow>
          if a_user_id answer = str_of (u_id current_user)
          then (Raise (HTTPException 400 ''You cannot vote on your own answer''), s)
          else
            (let s1 =
                   (if action = ''upvote''
                    then s\<lparr>answers := update_one (\<lambda>a. a_id a = aid)
                                         (\<lambda>a. a\<lparr>a_votes := a_votes a + 1\<rparr>) (answers s)\<rparr>
                    else if action = ''downvote''
                    then s\<lparr>answers := update_one (\<lambda>a. a_id a = aid)
                                         (\<lambda>a. a\<lparr>a_votes := a_votes a + (- 1)\<rparr>) (answers s)\<rparr>
                    else s)
             in case find (\<lambda>a. a_id a = aid) (answers s1) of
                  None \<Rightarrow> (Raise TypeError, s1)
                | Some updated_answer \<Rightarrow>
                    (Return (''Vote '' @ action @ '' applied successfully'',
                             a_votes updated_answer), s1))))"

text \<open>
  \<open>accept_answer\<close> finds the answer through \<open>ObjectId(answer_id)\<close> and the question through
  \<open>ObjectId(answer["question_id"])\<close>, the latter outside any \<open>try\<close>. The \<open>update_many\<close>
  that removes the earlier acceptance selects the answers whose field \<open>question_id\<close> is
  the same string as that of the answer, and the question takes the string \<open>answer_id\<close> of
  the request as its \<open>accepted_answer\<close>.
\<close>

definition accept_answer :: "string \<Rightarrow> user \<Rightarrow> db \<Rightarrow> string result \<times> db" where
  "accept_answer answer_id current_user s =
     (case ObjectId answer_id of
        None \<Rightarrow> (Raise (HTTPException 400 ''Invalid answer ID''), s)
      | Some aid \<Rightarrow>
     (case find (\<lambda>a. a_id a = aid) (answers s) of
        None \<Rightarrow> (Raise (HTTPException 404 ''Answer not found''), s)
      | Some answer \<Rightarrow>
     (case ObjectId (a_question_id answer) of
        None \<Rightarrow> (Raise InvalidId, s)
      | Some qid \<Rightarrow>
          (case find (\<lambda>q. q_id q = qid) (questions s) of
             None \<Rightarrow> (Raise (HTTPException 404 ''Question not found''), s)
           | Some question \<Rightarrow>
               if q_user_id question \<noteq> str_of (u_id current_user)
               then (Raise (HTTPException 403 ''Only the question author can accept answers''), s)
               else
                 (let s1 = s\<lparr>answers :=
                              update_many (\<lambda>a. a_question_id a = a_question_id answer)
                                (\<lambda>a. a\<lparr>a_is_accepted := False\<rparr>) (answers s)\<rparr>;
                      s2 = s1\<lparr>answers :=
                               update_one (\<lambda>a. a_id a = aid)
                                 (\<lambda>a. a\<lparr>a_is_accepted := True\<rparr>) (answers s1)\<rparr>;
                      s3 = s2\<lparr>questions :=
                               update_one (\<lambda>q. q_id q = qid)
                                 (\<lambda>q. q\<lparr>q_accepted_answer := Some answer_id\<rparr>) (questions s2)\<rparr>
                  in case notify_accepted_answer answer_id (str_of (u_id current_user)) s3 of
                       (Raise x, s4) \<Rightarrow> (Raise x, s4)
                     | (Return _, s4) \<Rightarrow> (Return ''Answer accepted successfully'', s4))))))"

text \<open>
  In \<open>delete_answer\<close> the \<open>$pull\<close> removes from the question's \<open>answers\<close> the entries equal
  to the string \<open>answer_id\<close> of the request.
\<close>

definition delete_answer :: "string \<Rightarrow> user \<Rightarrow> db \<Rightarrow> unit result \<times> db" where
  "delete_answer answer_id current_user s =
     (case ObjectId answer_id of
        None \<Rightarrow> (Raise (HTTPException 400 ''Invalid answer ID''), s)
      | Some aid \<Rightarrow>
     (case find (\<lambda>a. a_id a = aid) (answers s) of
        None \<Rightarrow> (Raise (HTTPException 404 ''Answer not found''), s)
      | Some answer \<Rightarrow>
          if a_user_id answer \<noteq> str_of (u_id current_user) \<and> role current_user \<noteq> ''admin''
          then (Raise (HTTPException 403 ''You can only delete your own answers''), s)
          else
            (case ObjectId (a_question_id answer) of
               None \<Rightarrow> (Raise InvalidId, s)
             | Some qid \<Rightarrow>
                 (let s1 = s\<lparr>questions :=
                              update_one (\<lambda>q. q_id q = qid)
                                (\<lambda>q. q\<lparr>q_answers := removeAll answer_id (q_answers q)\<rparr>)
                                (questions s)\<rparr>;
                      s2 = (if a_is_accepted answer
                            then s1\<lparr>questions :=
                                     update_one (\<lambda>q. q_id q = qid)
                                       (\<lambda>q. q\<lparr>q_accepted_answer := None\<rparr>) (questions s1)\<rparr>
                            else s1);
                      s3 = s2\<lparr>answers := delete_one (\<lambda>a. a_id a = aid) (answers s2)\<rparr>
                  in (Return (), s3)))))"

section \<open>Notions used by the properties\<close>

text \<open>
  The notification documents a step has appended, and the property that a step only
  appends documents and none of them is addressed to its own sender.
\<close>

definition new_docs :: "db \<Rightarrow> db \<Rightarrow> notification list" where
  "new_docs s s' = drop (length (notifications s)) (notifications s')"

definition adds_only_foreign :: "db \<Rightarrow> db \<Rightarrow> bool" where
  "adds_only_foreign s s' =
     (notifications s' = notifications s @ new_docs s s'
      \<and> list_all (\<lambda>n. n_user_id n \<noteq> n_from_user_id n) (new_docs s s'))"

text \<open>
  Stores on which every awaited insert completes, and stores on which every insert at
  least stores its document.
\<close>

definition always_completes :: "db \<Rightarrow> bool" where
  "always_completes s = (\<forall>d. await_insert s d = Completes)"

definition always_stores :: "db \<Rightarrow> bool" where
  "always_stores s = (\<forall>d. await_insert s d \<noteq> Raises_unstored)"


text \<open>
  The user a name refers to (by the \<open>str\<close> of the \<open>_id\<close>, the form in which a notification
  names its recipient), the number of times the content of a post mentions a user, and
  the number of mention notifications for a user among some documents.
\<close>

definition mentioned_user :: "user list \<Rightarrow> string \<Rightarrow> string option" where
  "mentioned_user us name =
     map_option (\<lambda>u. str_of (u_id u)) (find (\<lambda>u. username u = name) us)"


definition mentions_to :: "string \<Rightarrow> notification list \<Rightarrow> nat" where
  "mentions_to uid ns = length (filter (\<lambda>n. n_user_id n = uid \<and> n_type n = MENTION) ns)"

text \<open>
  The mention notifications for a list of names: one for each name, in order, that
  belongs to a user other than the sender.
\<close>

definition mention_doc ::
  "string \<Rightarrow> string \<Rightarrow> string option \<Rightarrow> string option \<Rightarrow> string \<Rightarrow> notification" where
  "mention_doc from_username from_user_id question_id answer_id uid =
     \<lparr>n_user_id = uid, n_from_user_id = from_user_id, n_type = MENTION,
      n_message = from_username @ '' mentioned you in a post'', n_question_id = question_id,
      n_answer_id = answer_id, n_read = False\<rparr>"

definition mention_docs ::
  "user list \<Rightarrow> string \<Rightarrow> string \<Rightarrow> string option \<Rightarrow> string option \<Rightarrow> string list
     \<Rightarrow> notification list" where
  "mention_docs us from_username from_user_id question_id answer_id names =
     map (mention_doc from_username from_user_id question_id answer_id)
       (filter (\<lambda>uid. uid \<noteq> from_user_id) (List.map_filter (mentioned_user us) names))"

text \<open>
  The name a notification message gives to its sender, and the notification that a new
  answer brings to the author of the question when somebody else has answered.
\<close>

definition sender_name :: "user list \<Rightarrow> string \<Rightarrow> string" where
  "sender_name us uid =
     (case ObjectId uid of
        None \<Rightarrow> ''Someone''
      | Some i \<Rightarrow>
          (case find (\<lambda>u. u_id u = i) us of Some u \<Rightarrow> username u | None \<Rightarrow> ''Someone''))"

definition new_answer_docs ::
  "user list \<Rightarrow> question \<Rightarrow> string \<Rightarrow> string \<Rightarrow> string \<Rightarrow> notification list" where
  "new_answer_docs us question question_id answer_id answerer_id =
     (if q_user_id question \<noteq> answerer_id
      then [\<lparr>n_user_id = q_user_id question, n_from_user_id = answerer_id, n_type = ANSWER,
             n_message = sender_name us answerer_id @ '' answered your question: ''
                           @ q_title question,
             n_question_id = Some question_id, n_answer_id = Some answer_id,
             n_read = False\<rparr>]
      else [])"

definition succeeded :: "'a result \<Rightarrow> bool" where
  "succeeded r = (case r of Return _ \<Rightarrow> True | Raise _ \<Rightarrow> False)"

text \<open>
  Everything a new answer should notify: the author of the question, then the users its
  content mentions.
\<close>

definition answer_fan_out ::
  "user list \<Rightarrow> question \<Rightarrow> string \<Rightarrow> string \<Rightarrow> string \<Rightarrow> string \<Rightarrow> notification list" where
  "answer_fan_out us question question_id answer_id content uid =
     new_answer_docs us question question_id answer_id uid
       @ mention_docs us (sender_name us uid) uid (Some question_id) (Some answer_id)
           (extract_mentions content)"

text \<open>The store of \<open>create_answer\<close> when the answer and its id have been written.\<close>

definition with_answer :: "db \<Rightarrow> oid \<Rightarrow> answer \<Rightarrow> db" where
  "with_answer s qid answer_doc =
     s\<lparr>answers := answers s @ [answer_doc],
       questions := update_one (\<lambda>q. q_id q = qid)
                      (\<lambda>q. q\<lparr>q_answers := q_answers q @ [str_of (a_id answer_doc)]\<rparr>)
                      (questions s)\<rparr>"

text \<open>
  What \<open>list(set(xs))\<close> guarantees whatever the order of iteration: every element of \<open>xs\<close>
  once.
\<close>

definition enumerates_sets :: "env \<Rightarrow> bool" where
  "enumerates_sets e = (\<forall>xs. distinct (set_order e xs) \<and> set (set_order e xs) = set xs)"

text \<open>The change that a vote makes to the vote count of an answer.\<close>

definition vote_delta :: "string \<Rightarrow> int" where
  "vote_delta action =
     (if action = ''upvote'' then 1 else if action = ''downvote'' then - 1 else 0)"

text \<open>An answer without its vote count: all the fields that a vote must leave alone.\<close>

definition without_votes :: "answer \<Rightarrow> answer" where
  "without_votes a = a\<lparr>a_votes := 0\<rparr>"

text \<open>
  The accepted answers of a question: the answers marked as accepted whose \<open>question_id\<close>
  names the question, read through \<open>ObjectId\<close> the way \<open>accept_answer\<close> finds the question
  of an answer.
\<close>

definition accepted_of :: "db \<Rightarrow> oid \<Rightarrow> answer list" where
  "accepted_of s qid =
     filter (\<lambda>a. ObjectId (a_question_id a) = Some qid \<and> a_is_accepted a) (answers s)"

text \<open>
  A tag as the tag extraction should deliver it: one word without whitespace, in lower
  case, longer than two characters, not a number.
\<close>

definition well_formed_tag :: "string \<Rightarrow> bool" where
  "well_formed_tag t =
     (length (py_split t) = 1 \<and> list_all (\<lambda>c. \<not> py_isspace c) t \<and> py_lower t = t
      \<and> length t > 2 \<and> \<not> py_isdigit t)"


section \<open>Example data\<close>

definition alice_id :: oid where
  "alice_id = Oid ''000000000000000000000001''"

definition bob_id :: oid where
  "bob_id = Oid ''000000000000000000000002''"

definition carol_id :: oid where
  "carol_id = Oid ''000000000000000000000003''"

definition question1_id :: oid where
  "question1_id = Oid ''00000000000000000000000a''"

definition question2_id :: oid where
  "question2_id = Oid ''00000000000000000000000c''"

definition answer1_id :: oid where
  "answer1_id = Oid ''0000000000000000000000b1''"

definition answer2_id :: oid where
  "answer2_id = Oid ''0000000000000000000000b2''"

definition alice :: user where
  "alice = \<lparr>u_id = alice_id, username = ''alice'', role = ''user''\<rparr>"

definition bob :: user where
  "bob = \<lparr>u_id = bob_id, username = ''bob'', role = ''user''\<rparr>"

definition carol :: user where
  "carol = \<lparr>u_id = carol_id, username = ''carol'', role = ''admin''\<rparr>"

definition question1 :: question where
  "question1 =
     \<lparr>q_id = question1_id, q_title = ''Sorting'', q_description = ''How do I sort a list?'',
      q_tags = [''sorting''], q_user_id = ''000000000000000000000001'', q_answers = [],
      q_accepted_answer = None, q_toxic_score = 1 / 10\<rparr>"

definition db0 :: "(notification \<Rightarrow> insert_outcome) \<Rightarrow> db" where
  "db0 ins =
     \<lparr>users = [alice, bob, carol], questions = [question1], answers = [],
      notifications = [], await_insert = ins\<rparr>"

definition env0 :: env where
  "env0 =
     \<lparr>toxic_ai_available = False, toxic_prob = (\<lambda>_. 0), tag_ai_available = False,
      extract_keywords = (\<lambda>_ _. []), pos_ok = (\<lambda>_. True), set_order = remdups,
      generate_chatgpt_answer = (\<lambda>_. ''It depends.'')\<rparr>"

text \<open>
  The example store with an awaited insert that completes, one that raises after storing
  and one that raises without storing.
\<close>

definition db_completes :: db where
  "db_completes = db0 (\<lambda>_. Completes)"

definition db_sync :: db where
  "db_sync = db0 (\<lambda>_. Stores_then_raises)"

definition db_down :: db where
  "db_down = db0 (\<lambda>_. Raises_unstored)"

definition answer1 :: answer where
  "answer1 =
     \<lparr>a_id = answer1_id, a_question_id = ''00000000000000000000000a'',
      a_user_id = ''000000000000000000000002'',
      a_content = ''Use the sorted function.'', a_votes = 0, a_is_accepted = False,
      a_toxic_score = 1 / 10, a_ai_generated = False\<rparr>"

definition db1 :: db where
  "db1 = db_completes\<lparr>answers := [answer1]\<rparr>"

definition env_ai :: env where
  "env_ai =
     env0\<lparr>tag_ai_available := True,
          extract_keywords := (\<lambda>_ _. [(''sorting'', 9 / 10), (''lists'', 4 / 5)])\<rparr>"

text \<open>A chat model whose answer mentions a user.\<close>

definition env_chat :: env where
  "env_chat = env0\<lparr>generate_chatgpt_answer := (\<lambda>_. ''Ask @carol about it.'')\<rparr>"

text \<open>
  A run of four requests of alice on her own question: she answers it, accepts that
  answer, answers it once more, this time with the identifier of the question written
  with a capital hexadecimal digit, and accepts the second answer.
\<close>

definition db_answered :: db where
  "db_answered =
     snd (create_answer env0 ''00000000000000000000000a'' ''Use the sorted function.'' alice
            answer1_id db_sync)"

definition db_accepted :: db where
  "db_accepted = snd (accept_answer ''0000000000000000000000b1'' alice db_answered)"

definition db_answered_again :: db where
  "db_answered_again =
     snd (create_answer env0 ''00000000000000000000000A'' ''Use the sort method.'' alice
            answer2_id db_accepted)"

definition db_accepted_again :: db where
  "db_accepted_again = snd (accept_answer ''0000000000000000000000b2'' alice db_answered_again)"

section \<open>Identifiers\<close>

lemma str_of_Oid:
  "length x = 24 \<Longrightarrow> list_all lower_hex x \<Longrightarrow> str_of (Oid x) = x"
  by (simp add: Oid_inverse)

lemma lower_hex_digit: "lower_hex c \<Longrightarrow> hex_digit c \<and> hex_lower c = c"
  by (auto simp add: hex_digit_def lower_hex_def hex_lower_def)

lemma str_of_valid: "length (str_of i) = 24 \<and> list_all lower_hex (str_of i)"
  using str_of [of i] by simp

text \<open>\<open>ObjectId(str(i))\<close> is \<open>i\<close>, and the \<open>str\<close> of an \<open>ObjectId\<close> determines it.\<close>

lemma ObjectId_str_of: "ObjectId (str_of i) = Some i"
proof -
  have v: "length (str_of i) = 24" "list_all lower_hex (str_of i)"
    using str_of_valid [of i] by simp_all
  have h: "list_all hex_digit (str_of i)"
    using v(2) lower_hex_digit by (simp add: list_all_iff)
  have "map hex_lower (str_of i) = str_of i"
    using v(2) lower_hex_digit by (intro map_idI) (simp add: list_all_iff)
  then show ?thesis
    using v(1) h by (simp add: ObjectId_def str_of_inverse)
qed

lemma oid_eq_iff: "(i = j) = (str_of i = str_of j)"
  by (simp add: str_of_inject)

text \<open>The identifiers of the example data.\<close>

lemma str_of_examples:
  "str_of alice_id = ''000000000000000000000001''"
  "str_of bob_id = ''000000000000000000000002''"
  "str_of carol_id = ''000000000000000000000003''"
  "str_of question1_id = ''00000000000000000000000a''"
  "str_of question2_id = ''00000000000000000000000c''"
  "str_of answer1_id = ''0000000000000000000000b1''"
  "str_of answer2_id = ''0000000000000000000000b2''"
  by (simp_all add: alice_id_def bob_id_def carol_id_def question1_id_def question2_id_def
      answer1_id_def answer2_id_def str_of_Oid lower_hex_def)

lemma ObjectId_examples:
  "ObjectId ''000000000000000000000001'' = Some alice_id"
  "ObjectId ''000000000000000000000002'' = Some bob_id"
  "ObjectId ''000000000000000000000003'' = Some carol_id"
  "ObjectId ''00000000000000000000000a'' = Some question1_id"
  "ObjectId ''00000000000000000000000A'' = Some question1_id"
  "ObjectId ''00000000000000000000000c'' = Some question2_id"
  "ObjectId ''0000000000000000000000b1'' = Some answer1_id"
  "ObjectId ''0000000000000000000000B1'' = Some answer1_id"
  "ObjectId ''0000000000000000000000b2'' = Some answer2_id"
  by (simp_all add: ObjectId_def hex_digit_def hex_lower_def alice_id_def bob_id_def
      carol_id_def question1_id_def question2_id_def answer1_id_def answer2_id_def)

lemmas ids = str_of_examples ObjectId_examples oid_eq_iff

text \<open>The equations that evaluate the notification steps on the example data.\<close>

lemmas ev = notify_mentions_def Let_def db0_def alice_def bob_def carol_def db_completes_def
        create_notification_def insert_notification_def word_char_def is_alpha_char_def
        is_upper_char_def is_digit_char_def code_def new_docs_def mentions_to_def ids

section \<open>Notifications never go to their sender\<close>

lemma adds_only_foreign_refl: "adds_only_foreign s s"
  by (simp add: adds_only_foreign_def new_docs_def)

lemma adds_only_foreign_trans:
  assumes "adds_only_foreign s s1" and "adds_only_foreign s1 s2"
  shows "adds_only_foreign s s2"
proof -
  from assms have e1: "notifications s1 = notifications s @ new_docs s s1"
    and e2: "notifications s2 = notifications s1 @ new_docs s1 s2"
    and f1: "list_all (\<lambda>n. n_user_id n \<noteq> n_from_user_id n) (new_docs s s1)"
    and f2: "list_all (\<lambda>n. n_user_id n \<noteq> n_from_user_id n) (new_docs s1 s2)"
    by (simp_all add: adds_only_foreign_def)
  have e: "notifications s2 = notifications s @ (new_docs s s1 @ new_docs s1 s2)"
    using e1 e2 by simp
  then have n: "new_docs s s2 = new_docs s s1 @ new_docs s1 s2"
    unfolding new_docs_def by (metis append_eq_conv_conj)
  show ?thesis
    unfolding adds_only_foreign_def using e n f1 f2 by simp
qed

lemma insert_notification_frame:
  "users (snd (insert_notification doc s)) = users s
   \<and> questions (snd (insert_notification doc s)) = questions s
   \<and> answers (snd (insert_notification doc s)) = answers s
   \<and> await_insert (snd (insert_notification doc s)) = await_insert s"
  by (simp add: insert_notification_def split: insert_outcome.splits)

lemma create_notification_frame:
  "users (snd (create_notification u f t m q a s)) = users s
   \<and> questions (snd (create_notification u f t m q a s)) = questions s
   \<and> answers (snd (create_notification u f t m q a s)) = answers s
   \<and> await_insert (snd (create_notification u f t m q a s)) = await_insert s"
  by (simp add: create_notification_def Let_def insert_notification_frame)

lemma create_notification_self:
  "create_notification u u t m q a s = (Return (), s)"
  by (simp add: create_notification_def)

lemma create_notification_foreign:
  "adds_only_foreign s (snd (create_notification u f t m q a s))"
  by (simp add: create_notification_def Let_def insert_notification_def adds_only_foreign_def
      new_docs_def split: insert_outcome.splits)

lemma notify_new_answer_foreign:
  "adds_only_foreign s (snd (notify_new_answer question_id answer_id answerer_id s))"
  by (simp add: notify_new_answer_def Let_def create_notification_foreign
      adds_only_foreign_refl split: option.splits)

lemma notify_accepted_answer_foreign:
  "adds_only_foreign s (snd (notify_accepted_answer answer_id question_author_id s))"
  by (simp add: notify_accepted_answer_def Let_def create_notification_foreign
      adds_only_foreign_refl split: option.splits)

lemma mention_loop_foreign:
  "adds_only_foreign s (snd (mention_loop fu f q a names s))"
proof (induction names arbitrary: s)
  case Nil
  show ?case by (simp add: adds_only_foreign_refl)
next
  case (Cons name rest)
  show ?case
  proof (cases "find (\<lambda>u. username u = name) (users s)")
    case None
    then show ?thesis using Cons.IH [of s] by simp
  next
    case (Some mu)
    obtain r s' where c: "create_notification (str_of (u_id mu)) f MENTION
        (fu @ '' mentioned you in a post'') q a s = (r, s')"
      by (cases "create_notification (str_of (u_id mu)) f MENTION (fu @ '' mentioned you in a post'') q a s")
    have step: "adds_only_foreign s s'"
      using create_notification_foreign [of s "str_of (u_id mu)" f MENTION "fu @ '' mentioned you in a post''" q a] c
      by simp
    show ?thesis
    proof (cases r)
      case (Raise x)
      then show ?thesis using Some c step by simp
    next
      case (Return v)
      then show ?thesis
        using Some c step Cons.IH [of s'] adds_only_foreign_trans by simp
    qed
  qed
qed

lemma notify_mentions_foreign:
  "adds_only_foreign s (snd (notify_mentions content f q a s))"
  by (simp add: notify_mentions_def Let_def mention_loop_foreign adds_only_foreign_refl
      split: option.splits)

lemma mention_loop_self:
  "\<forall>name \<in> set names. mentioned_user (users s) name \<in> {None, Some f} \<Longrightarrow>
     mention_loop fu f q a names s = (Return (), s)"
proof (induction names)
  case Nil
  show ?case by simp
next
  case (Cons name rest)
  then have ih: "mention_loop fu f q a rest s = (Return (), s)" by simp
  show ?case
  proof (cases "find (\<lambda>u. username u = name) (users s)")
    case None
    then show ?thesis using ih by simp
  next
    case (Some mu)
    then have "str_of (u_id mu) = f" using Cons.prems by (simp add: mentioned_user_def)
    then show ?thesis using Some ih by (simp add: create_notification_def)
  qed
qed

lemma notify_mentions_self:
  "\<forall>name \<in> set (extract_mentions content). mentioned_user (users s) name \<in> {None, Some f} \<Longrightarrow>
     notify_mentions content f q a s
       = (if extract_mentions content \<noteq> [] \<and> ObjectId f = None then Raise InvalidId
          else Return (), s)"
  by (simp add: notify_mentions_def Let_def mention_loop_self split: option.splits)

lemma notify_new_answer_self:
  "ObjectId question_id = Some qid \<Longrightarrow>
   find (\<lambda>q. q_id q = qid) (questions s) = Some question \<Longrightarrow>
   q_user_id question = answerer_id \<Longrightarrow>
     notify_new_answer question_id answer_id answerer_id s
       = (if ObjectId answerer_id = None then Raise InvalidId else Return (), s)"
  by (simp add: notify_new_answer_def Let_def create_notification_def split: option.splits)

lemma notify_accepted_answer_self:
  "ObjectId answer_id = Some aid \<Longrightarrow>
   find (\<lambda>a. a_id a = aid) (answers s) = Some answer \<Longrightarrow>
   a_user_id answer = question_author_id \<Longrightarrow>
     snd (notify_accepted_answer answer_id question_author_id s) = s
     \<and> (ObjectId (a_question_id answer) \<noteq> None \<and> ObjectId question_author_id \<noteq> None \<longrightarrow>
          notify_accepted_answer answer_id question_author_id s = (Return (), s))"
  by (simp add: notify_accepted_answer_def Let_def create_notification_def split: option.splits)

text \<open>
  Claim C1 (no self-notification). When the recipient \<open>user_id\<close> equals \<open>from_user_id\<close>,
  \<open>create_notification\<close> inserts nothing and returns with the store unchanged; so do the
  three triggers when the recipient they compute is the sender (the author of the question
  answers it, the author of the answer accepts it, every mentioned name is unknown or the
  sender's): the store is unchanged, and the trigger returns unless one of its calls of
  \<open>ObjectId\<close> raises, which the \<open>str\<close> of an \<open>_id\<close> never causes. Whatever the insert does,
  \<open>create_notification\<close>, \<open>notify_new_answer\<close>, \<open>notify_accepted_answer\<close> and
  \<open>notify_mentions\<close> only append notification documents, and in every document they append
  the recipient differs from the sender.
\<close>

theorem no_self_notification:
  "(user_id = from_user_id \<longrightarrow>
      create_notification user_id from_user_id t m q a s = (Return (), s))
   \<and> (ObjectId question_id = Some qid
        \<and> find (\<lambda>q. q_id q = qid) (questions s) = Some question
        \<and> q_user_id question = answerer_id \<longrightarrow>
      notify_new_answer question_id answer_id answerer_id s
        = (if ObjectId answerer_id = None then Raise InvalidId else Return (), s))
   \<and> (ObjectId answer_id = Some aid
        \<and> find (\<lambda>a. a_id a = aid) (answers s) = Some answer
        \<and> a_user_id answer = question_author_id \<longrightarrow>
      snd (notify_accepted_answer answer_id question_author_id s) = s
      \<and> (ObjectId (a_question_id answer) \<noteq> None \<and> ObjectId question_author_id \<noteq> None \<longrightarrow>
           notify_accepted_answer answer_id question_author_id s = (Return (), s)))
   \<and> ((\<forall>name \<in> set (extract_mentions content).
          mentioned_user (users s) name \<in> {None, Some from_user_id}) \<longrightarrow>
      notify_mentions content from_user_id q a s
        = (if extract_mentions content \<noteq> [] \<and> ObjectId from_user_id = None
           then Raise InvalidId else Return (), s))
   \<and> adds_only_foreign s (snd (create_notification user_id from_user_id t m q a s))
   \<and> adds_only_foreign s (snd (notify_new_answer question_id answer_id answerer_id s))
   \<and> adds_only_foreign s (snd (notify_accepted_answer answer_id question_author_id s))
   \<and> adds_only_foreign s (snd (notify_mentions content from_user_id q a s))"
  using create_notification_self [of from_user_id t m q a s]
    notify_new_answer_self [of question_id qid s question answerer_id answer_id]
    notify_accepted_answer_self [of answer_id aid s answer question_author_id]
    notify_mentions_self [of content s from_user_id q a]
    create_notification_foreign [of s user_id from_user_id t m q a]
    notify_new_answer_foreign [of s question_id answer_id answerer_id]
    notify_accepted_answer_foreign [of s answer_id question_author_id]
    notify_mentions_foreign [of s content from_user_id q a]
  by blast

theorem no_self_notification_witness:
  "create_notification (str_of alice_id) (str_of alice_id) MENTION ''hi''
       (Some (str_of question1_id)) (Some (str_of answer1_id)) db1
     = (Return (), db1)
   \<and> ObjectId (str_of question1_id) = Some question1_id
   \<and> find (\<lambda>q. q_id q = question1_id) (questions db1) = Some question1
   \<and> q_user_id question1 = str_of alice_id
   \<and> notify_new_answer (str_of question1_id) (str_of answer1_id) (str_of alice_id) db1
       = (Return (), db1)
   \<and> ObjectId (str_of answer1_id) = Some answer1_id
   \<and> find (\<lambda>a. a_id a = answer1_id) (answers db1) = Some answer1
   \<and> a_user_id answer1 = str_of bob_id
   \<and> notify_accepted_answer (str_of answer1_id) (str_of bob_id) db1 = (Return (), db1)
   \<and> list_all (\<lambda>name. mentioned_user (users db1) name \<in> {None, Some (str_of alice_id)})
        (extract_mentions ''@alice and @dave'')
   \<and> notify_mentions ''@alice and @dave'' (str_of alice_id) (Some (str_of question1_id))
        (Some (str_of answer1_id)) db1 = (Return (), db1)
   \<and> adds_only_foreign db1
        (snd (notify_mentions ''@alice and @bob'' (str_of alice_id) (Some (str_of question1_id))
                (Some (str_of answer1_id)) db1))
   \<and> map n_user_id
        (new_docs db1 (snd (notify_mentions ''@alice and @bob'' (str_of alice_id)
                              (Some (str_of question1_id)) (Some (str_of answer1_id)) db1)))
       = [str_of bob_id]"
proof -
  have h1: "find (\<lambda>q. q_id q = question1_id) (questions db1) = Some question1"
    and h2: "q_user_id question1 = str_of alice_id"
    and h3: "find (\<lambda>a. a_id a = answer1_id) (answers db1) = Some answer1"
    and h4: "a_user_id answer1 = str_of bob_id"
    by (simp_all add: db1_def db_completes_def db0_def question1_def answer1_def str_of_examples)
  have h5: "list_all (\<lambda>name. mentioned_user (users db1) name \<in> {None, Some (str_of alice_id)})
        (extract_mentions ''@alice and @dave'')"
    by (simp add: mentioned_user_def db1_def ev)
  then have h5': "\<forall>name \<in> set (extract_mentions ''@alice and @dave'').
        mentioned_user (users db1) name \<in> {None, Some (str_of alice_id)}"
    by (simp only: list_all_iff)
  have h6: "extract_mentions ''@alice and @dave'' \<noteq> []"
    by (simp add: ev)
  have ev1: "map n_user_id
        (new_docs db1 (snd (notify_mentions ''@alice and @bob'' (str_of alice_id)
                              (Some (str_of question1_id)) (Some (str_of answer1_id)) db1)))
       = [str_of bob_id]"
    by (simp add: db1_def ev)
  have v: "ObjectId (a_question_id answer1) \<noteq> None"
    by (simp add: answer1_def ObjectId_examples)
  note t1 = no_self_notification [where user_id = "str_of alice_id"
        and from_user_id = "str_of alice_id" and t = MENTION
        and m = "''hi''" and q = "Some (str_of question1_id)" and a = "Some (str_of answer1_id)"
        and s = db1 and question_id = "str_of question1_id" and qid = question1_id
        and question = question1 and answerer_id = "str_of alice_id"
        and answer_id = "str_of answer1_id" and aid = answer1_id and answer = answer1
        and question_author_id = "str_of bob_id" and content = "''@alice and @dave''"]
  note t2 = no_self_notification [where user_id = "str_of alice_id"
        and from_user_id = "str_of alice_id" and t = MENTION
        and m = "''hi''" and q = "Some (str_of question1_id)" and a = "Some (str_of answer1_id)"
        and s = db1 and content = "''@alice and @bob''"]
  have c1: "create_notification (str_of alice_id) (str_of alice_id) MENTION ''hi''
       (Some (str_of question1_id)) (Some (str_of answer1_id)) db1 = (Return (), db1)"
    using t1 by blast
  have c2: "notify_new_answer (str_of question1_id) (str_of answer1_id) (str_of alice_id) db1
       = (Return (), db1)"
    using t1 h1 h2 by (simp add: ObjectId_str_of)
  have c3: "notify_accepted_answer (str_of answer1_id) (str_of bob_id) db1 = (Return (), db1)"
    using t1 h3 h4 v by (simp add: ObjectId_str_of)
  have c4: "notify_mentions ''@alice and @dave'' (str_of alice_id) (Some (str_of question1_id))
        (Some (str_of answer1_id)) db1 = (Return (), db1)"
    using t1 h5' by (simp add: ObjectId_str_of)
  have c5: "adds_only_foreign db1
        (snd (notify_mentions ''@alice and @bob'' (str_of alice_id) (Some (str_of question1_id))
                (Some (str_of answer1_id)) db1))"
    using t2 by blast
  show ?thesis
    using h1 h2 h3 h4 h5 ev1 c1 c2 c3 c4 c5 by (simp add: ObjectId_str_of)
qed

section \<open>Mention notifications\<close>

lemma always_completes_insert:
  "always_completes s \<Longrightarrow>
     insert_notification doc s = (Return (), s\<lparr>notifications := notifications s @ [doc]\<rparr>)"
  by (simp add: always_completes_def insert_notification_def)

lemma always_completes_notifications [simp]:
  "always_completes (s\<lparr>notifications := ns\<rparr>) = always_completes s"
  by (simp add: always_completes_def)

lemma map_filter_Cons_None: "f x = None \<Longrightarrow> List.map_filter f (x # xs) = List.map_filter f xs"
  by (simp add: map_filter_def)

lemma map_filter_Cons_Some: "f x = Some y \<Longrightarrow> List.map_filter f (x # xs) = y # List.map_filter f xs"
  by (simp add: map_filter_def)

lemma mention_loop_completes:
  "always_completes s \<Longrightarrow>
     mention_loop fu f q a names s =
       (Return (), s\<lparr>notifications := notifications s @ mention_docs (users s) fu f q a names\<rparr>)"
proof (induction names arbitrary: s)
  case Nil
  show ?case by (simp add: mention_docs_def map_filter_def)
next
  case (Cons name rest)
  show ?case
  proof (cases "find (\<lambda>u. username u = name) (users s)")
    case None
    then have "mention_docs (users s) fu f q a (name # rest) = mention_docs (users s) fu f q a rest"
      by (simp add: mention_docs_def mentioned_user_def map_filter_Cons_None)
    then show ?thesis using None Cons.IH [OF Cons.prems] by simp
  next
    case (Some mu)
    then have m: "mentioned_user (users s) name = Some (str_of (u_id mu))"
      by (simp add: mentioned_user_def)
    show ?thesis
    proof (cases "str_of (u_id mu) = f")
      case True
      have "mention_docs (users s) fu f q a (name # rest) = mention_docs (users s) fu f q a rest"
        using m True by (simp add: mention_docs_def map_filter_Cons_Some)
      then show ?thesis
        using Some True Cons.IH [OF Cons.prems] by (simp add: create_notification_def)
    next
      case False
      let ?doc = "mention_doc fu f q a (str_of (u_id mu))"
      let ?s' = "s\<lparr>notifications := notifications s @ [?doc]\<rparr>"
      have c: "create_notification (str_of (u_id mu)) f MENTION (fu @ '' mentioned you in a post'') q a s
                 = (Return (), ?s')"
        using False always_completes_insert [OF Cons.prems]
        by (simp add: create_notification_def mention_doc_def)
      have d: "mention_docs (users s) fu f q a (name # rest)
                 = ?doc # mention_docs (users s) fu f q a rest"
        using m False by (simp add: mention_docs_def map_filter_Cons_Some)
      have ac: "always_completes ?s'" using Cons.prems by simp
      show ?thesis
        using Some c d Cons.IH [OF ac] by simp
    qed
  qed
qed





section \<open>Notifications of a new answer\<close>

lemma find_update_one:
  "(\<And>x. P (f x) = P x) \<Longrightarrow> find P (update_one P f xs) = map_option f (find P xs)"
  by (induction xs) simp_all

lemma find_append_new: "P x \<Longrightarrow> \<exists>y. find P (xs @ [x]) = Some y"
  by (induction xs) simp_all

lemma notify_new_answer_docs:
  assumes "ObjectId question_id = Some qid"
    and "find (\<lambda>q. q_id q = qid) (questions s) = Some question"
    and "ObjectId answerer_id = Some uid"
  shows "notify_new_answer question_id answer_id answerer_id s
           = (case new_answer_docs (users s) question question_id answer_id answerer_id of
                [] \<Rightarrow> (Return (), s)
              | doc # _ \<Rightarrow> insert_notification doc s)"
  using assms
  by (simp add: notify_new_answer_def Let_def create_notification_def new_answer_docs_def
      sender_name_def)

lemma mention_loop_prefix:
  "\<exists>ds. notifications (snd (mention_loop fu f q a names s)) = notifications s @ ds
        \<and> prefix ds (mention_docs (users s) fu f q a names)"
proof (induction names arbitrary: s)
  case Nil
  show ?case by simp
next
  case (Cons name rest)
  show ?case
  proof (cases "find (\<lambda>u. username u = name) (users s)")
    case None
    then have "mention_docs (users s) fu f q a (name # rest) = mention_docs (users s) fu f q a rest"
      by (simp add: mention_docs_def mentioned_user_def map_filter_Cons_None)
    then show ?thesis using None Cons.IH [of s] by simp
  next
    case (Some mu)
    then have m: "mentioned_user (users s) name = Some (str_of (u_id mu))"
      by (simp add: mentioned_user_def)
    show ?thesis
    proof (cases "str_of (u_id mu) = f")
      case True
      have "mention_docs (users s) fu f q a (name # rest) = mention_docs (users s) fu f q a rest"
        using m True by (simp add: mention_docs_def map_filter_Cons_Some)
      then show ?thesis
        using Some True Cons.IH [of s] by (simp add: create_notification_def)
    next
      case False
      let ?doc = "mention_doc fu f q a (str_of (u_id mu))"
      let ?s' = "s\<lparr>notifications := notifications s @ [?doc]\<rparr>"
      have c: "create_notification (str_of (u_id mu)) f MENTION
                 (fu @ '' mentioned you in a post'') q a s
                 = insert_notification ?doc s"
        using False by (simp add: create_notification_def mention_doc_def)
      have d: "mention_docs (users s) fu f q a (name # rest)
                 = ?doc # mention_docs (users s) fu f q a rest"
        using m False by (simp add: mention_docs_def map_filter_Cons_Some)
      show ?thesis
      proof (cases "await_insert s ?doc")
        case Completes
        obtain ds where "notifications (snd (mention_loop fu f q a rest ?s')) = notifications ?s' @ ds"
          and "prefix ds (mention_docs (users ?s') fu f q a rest)"
          using Cons.IH [of ?s'] by blast
        then have "notifications (snd (mention_loop fu f q a rest ?s')) = notifications s @ (?doc # ds)"
          and "prefix (?doc # ds) (mention_docs (users s) fu f q a (name # rest))"
          using d by simp_all
        then show ?thesis
          using Some c Completes by (simp add: insert_notification_def)
      next
        case Stores_then_raises
        have "notifications ?s' = notifications s @ [?doc]"
          and "prefix [?doc] (mention_docs (users s) fu f q a (name # rest))"
          using d by simp_all
        then show ?thesis
          using Some c Stores_then_raises by (simp add: insert_notification_def)
      next
        case Raises_unstored
        then show ?thesis
          using Some c by (simp add: insert_notification_def)
      qed
    qed
  qed
qed

lemma notify_mentions_prefix:
  "\<exists>ds. notifications (snd (notify_mentions content f q a s)) = notifications s @ ds
        \<and> prefix ds (mention_docs (users s) (sender_name (users s) f) f q a (extract_mentions content))"
proof (cases "extract_mentions content = [] \<or> ObjectId f = None")
  case True
  then have "snd (notify_mentions content f q a s) = s"
    by (auto simp add: notify_mentions_def Let_def)
  then show ?thesis by simp
next
  case False
  then obtain i where i: "ObjectId f = Some i" by auto
  show ?thesis
    using False i
      mention_loop_prefix [of "sender_name (users s) f" f q a "extract_mentions content" s]
    by (simp add: notify_mentions_def Let_def sender_name_def)
qed

text \<open>The store after the two notification calls of \<open>create_answer\<close>.\<close>

lemma answer_notifications_prefix:
  assumes "ObjectId question_id = Some qid"
    and "find (\<lambda>q. q_id q = qid) (questions s) = Some question"
    and "ObjectId uid = Some i"
  shows "\<exists>ds. notifications (answer_notifications question_id answer_id content uid s)
               = notifications s @ ds
           \<and> prefix ds (new_answer_docs (users s) question question_id answer_id uid
                @ mention_docs (users s) (sender_name (users s) uid) uid
                    (Some question_id) (Some answer_id) (extract_mentions content))"
proof (cases "q_user_id question = uid")
  case True
  then have "notify_new_answer question_id answer_id uid s = (Return (), s)"
    using notify_new_answer_docs [OF assms, of answer_id] by (simp add: new_answer_docs_def)
  moreover have "new_answer_docs (users s) question question_id answer_id uid = []"
    using True by (simp add: new_answer_docs_def)
  ultimately show ?thesis
    using notify_mentions_prefix [of content uid "Some question_id" "Some answer_id" s]
    by (simp add: answer_notifications_def)
next
  case False
  obtain doc where d: "new_answer_docs (users s) question question_id answer_id uid = [doc]"
    using False by (simp add: new_answer_docs_def)
  let ?doc = doc
  let ?s' = "s\<lparr>notifications := notifications s @ [?doc]\<rparr>"
  have n: "notify_new_answer question_id answer_id uid s = insert_notification ?doc s"
    using d notify_new_answer_docs [OF assms, of answer_id] by simp
  show ?thesis
  proof (cases "await_insert s ?doc")
    case Completes
    obtain ds where "notifications (snd (notify_mentions content uid (Some question_id) (Some answer_id) ?s'))
        = notifications ?s' @ ds"
      and "prefix ds (mention_docs (users ?s') (sender_name (users ?s') uid) uid
                    (Some question_id) (Some answer_id) (extract_mentions content))"
      using notify_mentions_prefix [of content uid "Some question_id" "Some answer_id" ?s'] by blast
    then have "notifications (snd (notify_mentions content uid (Some question_id) (Some answer_id) ?s'))
        = notifications s @ (?doc # ds)"
      and "prefix (?doc # ds) (new_answer_docs (users s) question question_id answer_id uid
                @ mention_docs (users s) (sender_name (users s) uid) uid
                    (Some question_id) (Some answer_id) (extract_mentions content))"
      using d by simp_all
    then show ?thesis
      using n Completes by (simp add: answer_notifications_def insert_notification_def)
  next
    case Stores_then_raises
    have "prefix [?doc] (new_answer_docs (users s) question question_id answer_id uid
                @ mention_docs (users s) (sender_name (users s) uid) uid
                    (Some question_id) (Some answer_id) (extract_mentions content))"
      using d by simp
    then show ?thesis
      using n Stores_then_raises by (simp add: answer_notifications_def insert_notification_def)
  next
    case Raises_unstored
    then show ?thesis
      using n by (simp add: answer_notifications_def insert_notification_def)
  qed
qed

lemma answer_notifications_completes:
  assumes "ObjectId question_id = Some qid"
    and "find (\<lambda>q. q_id q = qid) (questions s) = Some question"
    and "ObjectId uid = Some i"
    and "always_completes s"
  shows "notifications (answer_notifications question_id answer_id content uid s)
           = notifications s @ new_answer_docs (users s) question question_id answer_id uid
                @ mention_docs (users s) (sender_name (users s) uid) uid
                    (Some question_id) (Some answer_id) (extract_mentions content)"
proof -
  have m: "\<And>t. always_completes t \<Longrightarrow>
      notifications (snd (notify_mentions content uid (Some question_id) (Some answer_id) t))
        = notifications t @ mention_docs (users t) (sender_name (users t) uid) uid
                    (Some question_id) (Some answer_id) (extract_mentions content)"
    using assms(3)
    by (simp add: notify_mentions_def Let_def mention_loop_completes sender_name_def
        mention_docs_def map_filter_def)
  show ?thesis
  proof (cases "q_user_id question = uid")
    case True
    then have "notify_new_answer question_id answer_id uid s = (Return (), s)"
      using notify_new_answer_docs [OF assms(1,2,3), of answer_id]
      by (simp add: new_answer_docs_def)
    moreover have "new_answer_docs (users s) question question_id answer_id uid = []"
      using True by (simp add: new_answer_docs_def)
    ultimately show ?thesis
      using m [OF assms(4)] by (simp add: answer_notifications_def)
  next
    case False
    obtain doc where d: "new_answer_docs (users s) question question_id answer_id uid = [doc]"
      using False by (simp add: new_answer_docs_def)
    let ?doc = doc
    let ?s' = "s\<lparr>notifications := notifications s @ [?doc]\<rparr>"
    have n: "notify_new_answer question_id answer_id uid s = (Return (), ?s')"
      using d notify_new_answer_docs [OF assms(1,2,3), of answer_id]
        always_completes_insert [OF assms(4)]
      by simp
    have "always_completes ?s'" using assms(4) by simp
    from m [OF this] show ?thesis
      using n d by (simp add: answer_notifications_def)
  qed
qed

lemma create_answer_run:
  assumes i: "ObjectId question_id = Some qid"
    and q: "find (\<lambda>q. q_id q = qid) (questions s) = Some question"
    and nt: "\<not> fst (is_toxic e content (1 / 2))"
  shows "\<exists>resp doc. a_id doc = new_id \<and> a_question_id doc = question_id
           \<and> a_user_id doc = str_of (u_id current_user) \<and> \<not> a_is_accepted doc
           \<and> create_answer e question_id content current_user new_id s
               = (Return resp, answer_notifications question_id (str_of new_id) content
                    (str_of (u_id current_user)) (with_answer s qid doc))"
proof -
  obtain b sc where t: "is_toxic e content (1 / 2) = (b, sc)"
    by (cases "is_toxic e content (1 / 2)")
  with nt have b: "\<not> b" by simp
  let ?doc = "\<lparr>a_id = new_id, a_question_id = question_id,
               a_user_id = str_of (u_id current_user),
               a_content = content, a_votes = 0, a_is_accepted = False, a_toxic_score = sc,
               a_ai_generated = False\<rparr>"
  obtain ca where f: "find (\<lambda>a. a_id a = new_id) (answers s @ [?doc]) = Some ca"
    using find_append_new [of "\<lambda>a. a_id a = new_id" ?doc "answers s"] by auto
  have "create_answer e question_id content current_user new_id s
          = (Return \<lparr>ar_id = str_of (a_id ca), ar_question_id = a_question_id ca,
                     ar_user_id = a_user_id ca, ar_content = a_content ca,
                     ar_votes = a_votes ca, ar_is_accepted = a_is_accepted ca,
                     ar_username = username current_user,
                     ar_user_role = role current_user\<rparr>,
             answer_notifications question_id (str_of new_id) content
               (str_of (u_id current_user)) (with_answer s qid ?doc))"
    using i q t b f by (simp add: create_answer_def Let_def with_answer_def)
  then show ?thesis by (intro exI [of _ _] exI [of _ ?doc]) simp
qed

lemma with_answer_frame:
  "users (with_answer s qid doc) = users s
   \<and> notifications (with_answer s qid doc) = notifications s
   \<and> always_completes (with_answer s qid doc) = always_completes s"
  by (simp add: with_answer_def always_completes_def)

lemma with_answer_question:
  assumes "find (\<lambda>q. q_id q = qid) (questions s) = Some question"
  shows "\<exists>question'. find (\<lambda>q. q_id q = qid) (questions (with_answer s qid doc)) = Some question'
           \<and> q_user_id question' = q_user_id question
           \<and> q_title question' = q_title question"
  using assms
  by (simp add: with_answer_def find_update_one)

lemma new_answer_docs_cong:
  "q_user_id question' = q_user_id question \<Longrightarrow> q_title question' = q_title question \<Longrightarrow>
   answer_fan_out us question' question_id answer_id content uid
     = answer_fan_out us question question_id answer_id content uid"
  by (simp add: answer_fan_out_def new_answer_docs_def)

text \<open>
  Claim C3 (notifications under partial failure), as amended. For an existing question and
  content that passes moderation, \<open>create_answer\<close> succeeds whatever the notification steps
  do, because they run inside \<open>try: ... except Exception: pass\<close>. The notifications it
  stores are an initial part of the full fan-out (the new-answer notification for the
  author of the question, then one mention notification for each mention of an existing
  user other than the answerer): a step that raises ends the fan-out without a trace.
  When every awaited insert completes, the whole fan-out is stored.
\<close>

theorem answer_notifications_best_effort:
  assumes i: "ObjectId question_id = Some qid"
    and q: "find (\<lambda>q. q_id q = qid) (questions s) = Some question"
    and nt: "\<not> fst (is_toxic e content (1 / 2))"
  shows "succeeded (fst (create_answer e question_id content current_user new_id s))
       \<and> prefix (new_docs s (snd (create_answer e question_id content current_user new_id s)))
           (answer_fan_out (users s) question question_id (str_of new_id) content
              (str_of (u_id current_user)))
       \<and> (always_completes s \<longrightarrow>
            new_docs s (snd (create_answer e question_id content current_user new_id s))
              = answer_fan_out (users s) question question_id (str_of new_id) content
                  (str_of (u_id current_user)))"
proof -
  let ?uid = "str_of (u_id current_user)"
  let ?aid = "str_of new_id"
  have u: "ObjectId ?uid = Some (u_id current_user)" by (rule ObjectId_str_of)
  obtain resp doc where run: "create_answer e question_id content current_user new_id s
               = (Return resp, answer_notifications question_id ?aid content ?uid
                    (with_answer s qid doc))"
    using create_answer_run [OF i q nt] by blast
  let ?s2 = "with_answer s qid doc"
  obtain question' where q': "find (\<lambda>q. q_id q = qid) (questions ?s2) = Some question'"
    and same: "q_user_id question' = q_user_id question" "q_title question' = q_title question"
    using with_answer_question [OF q] by blast
  have fan: "answer_fan_out (users ?s2) question' question_id ?aid content ?uid
               = answer_fan_out (users s) question question_id ?aid content ?uid"
    using new_answer_docs_cong [OF same] by (simp add: with_answer_frame)
  have unf: "answer_fan_out (users ?s2) question' question_id ?aid content ?uid =
       new_answer_docs (users ?s2) question' question_id ?aid ?uid
         @ mention_docs (users ?s2) (sender_name (users ?s2) ?uid) ?uid (Some question_id)
             (Some ?aid) (extract_mentions content)"
    by (simp add: answer_fan_out_def)
  obtain ds where ds: "notifications (answer_notifications question_id ?aid content ?uid ?s2)
        = notifications ?s2 @ ds"
    and pre: "prefix ds (answer_fan_out (users ?s2) question' question_id ?aid content ?uid)"
    using answer_notifications_prefix [OF i q' u, of ?aid content] unf by auto
  have nd: "new_docs s (snd (create_answer e question_id content current_user new_id s)) = ds"
    using run ds by (simp add: new_docs_def with_answer_frame)
  have one: "succeeded (fst (create_answer e question_id content current_user new_id s))"
    using run by (simp add: succeeded_def)
  have two: "prefix (new_docs s (snd (create_answer e question_id content current_user new_id s)))
           (answer_fan_out (users s) question question_id ?aid content ?uid)"
    using nd pre fan by simp
  have three: "always_completes s \<longrightarrow>
            new_docs s (snd (create_answer e question_id content current_user new_id s))
              = answer_fan_out (users s) question question_id ?aid content ?uid"
  proof
    assume "always_completes s"
    then have ac: "always_completes ?s2" by (simp add: with_answer_frame)
    have "notifications (answer_notifications question_id ?aid content ?uid ?s2)
        = notifications ?s2 @ answer_fan_out (users ?s2) question' question_id ?aid content ?uid"
      using answer_notifications_completes [OF i q' u ac, of ?aid content] unf by simp
    then show "new_docs s (snd (create_answer e question_id content current_user new_id s))
              = answer_fan_out (users s) question question_id ?aid content ?uid"
      using run fan by (simp add: new_docs_def with_answer_frame)
  qed
  from one two three show ?thesis by blast
qed

text \<open>The equations that evaluate \<open>create_answer\<close> on the example data.\<close>

lemmas ev_answer = ev create_answer_def answer_notifications_def notify_new_answer_def
  is_toxic_def toxic_words_def py_lower_def lower_char_def env0_def question1_def
  db_down_def db_sync_def succeeded_def answer_fan_out_def new_answer_docs_def
  mention_docs_def mention_doc_def mentioned_user_def sender_name_def map_filter_def

text \<open>
  The claim as first stated, that no notification is dropped when a step fails while the
  answer is created, fails. Bob answers alice's question and mentions carol. When the driver
  raises on the insert, the answer is created and neither notification exists; when the
  awaited insert raises after storing, only alice's notification exists.
\<close>

theorem dropped_notifications_counterexample:
  "succeeded (fst (create_answer env0 (str_of question1_id) ''thanks @carol for the hint'' bob
                     answer1_id db_down))
   \<and> notifications (snd (create_answer env0 (str_of question1_id) ''thanks @carol for the hint''
                             bob answer1_id db_down))
       = []
   \<and> map n_user_id (answer_fan_out (users db_down) question1 (str_of question1_id)
        (str_of answer1_id) ''thanks @carol for the hint'' (str_of bob_id))
       = [str_of alice_id, str_of carol_id]
   \<and> succeeded (fst (create_answer env0 (str_of question1_id) ''thanks @carol for the hint'' bob
                       answer1_id db_sync))
   \<and> map n_user_id
        (notifications (snd (create_answer env0 (str_of question1_id)
                               ''thanks @carol for the hint'' bob answer1_id db_sync)))
       = [str_of alice_id]"
  by (simp add: ev_answer)

theorem answer_notifications_best_effort_witness:
  "ObjectId (str_of question1_id) = Some question1_id
   \<and> find (\<lambda>q. q_id q = question1_id) (questions db_completes) = Some question1
   \<and> \<not> fst (is_toxic env0 ''thanks @carol for the hint'' (1 / 2))
   \<and> always_completes db_completes
   \<and> succeeded (fst (create_answer env0 (str_of question1_id) ''thanks @carol for the hint'' bob
                       answer1_id db_completes))
   \<and> map n_user_id
        (new_docs db_completes
          (snd (create_answer env0 (str_of question1_id) ''thanks @carol for the hint'' bob
                  answer1_id db_completes)))
       = [str_of alice_id, str_of carol_id]"
proof -
  have i: "ObjectId (str_of question1_id) = Some question1_id"
    by (rule ObjectId_str_of)
  have q: "find (\<lambda>q. q_id q = question1_id) (questions db_completes) = Some question1"
    by (simp add: db_completes_def db0_def question1_def)
  have nt: "\<not> fst (is_toxic env0 ''thanks @carol for the hint'' (1 / 2))"
    by (simp add: ev_answer)
  have ac: "always_completes db_completes"
    by (simp add: always_completes_def db_completes_def db0_def)
  have fan: "map n_user_id (answer_fan_out (users db_completes) question1 (str_of question1_id)
        (str_of answer1_id) ''thanks @carol for the hint'' (str_of (u_id bob)))
       = [str_of alice_id, str_of carol_id]"
    by (simp add: ev_answer)
  show ?thesis
    using i q nt ac fan answer_notifications_best_effort [OF i q nt, of bob answer1_id]
    by simp
qed

section \<open>Who is notified\<close>

lemma always_stores_insert:
  "always_stores s \<Longrightarrow>
     notifications (snd (insert_notification doc s)) = notifications s @ [doc]"
  by (cases "await_insert s doc") (auto simp: always_stores_def insert_notification_def)

lemma notify_accepted_answer_docs:
  assumes "ObjectId answer_id = Some aid"
    and "find (\<lambda>a. a_id a = aid) (answers s) = Some answer"
    and "ObjectId (a_question_id answer) = Some qid"
    and "find (\<lambda>q. q_id q = qid) (questions s) = Some question"
    and "ObjectId question_author_id = Some uid"
    and "a_user_id answer \<noteq> question_author_id"
  shows "notify_accepted_answer answer_id question_author_id s
           = insert_notification
               \<lparr>n_user_id = a_user_id answer, n_from_user_id = question_author_id,
                n_type = ACCEPTED_ANSWER,
                n_message = sender_name (users s) question_author_id
                              @ '' accepted your answer to: '' @ q_title question,
                n_question_id = Some (a_question_id answer), n_answer_id = Some answer_id,
                n_read = False\<rparr> s"
  using assms
  by (simp add: notify_accepted_answer_def Let_def create_notification_def sender_name_def)

text \<open>
  On a store that keeps the documents it is asked to insert, whether or not the awaited
  insert then raises: for a new answer to an existing question whose author is not the
  answerer, \<open>notify_new_answer\<close> adds a notification of type \<open>answer\<close> for the author of the
  question; for an accepted answer whose author is not the accepting user,
  \<open>notify_accepted_answer\<close> adds one of type \<open>accepted_answer\<close> for the author of the answer.
\<close>

lemma answer_and_acceptance_notified:
  "(always_stores s \<and> ObjectId question_id = Some qid
      \<and> find (\<lambda>q. q_id q = qid) (questions s) = Some question
      \<and> ObjectId answerer_id = Some uid \<and> q_user_id question \<noteq> answerer_id \<longrightarrow>
      (\<exists>n \<in> set (new_docs s (snd (notify_new_answer question_id answer_id answerer_id s))).
         n_type n = ANSWER \<and> n_user_id n = q_user_id question
         \<and> n_from_user_id n = answerer_id \<and> n_question_id n = Some question_id
         \<and> n_answer_id n = Some answer_id))
   \<and> (always_stores s \<and> ObjectId accepted_id = Some aid
      \<and> find (\<lambda>a. a_id a = aid) (answers s) = Some answer
      \<and> ObjectId (a_question_id answer) = Some qid2
      \<and> find (\<lambda>q. q_id q = qid2) (questions s) = Some question2
      \<and> ObjectId question_author_id = Some uid2
      \<and> a_user_id answer \<noteq> question_author_id \<longrightarrow>
      (\<exists>n \<in> set (new_docs s (snd (notify_accepted_answer accepted_id question_author_id s))).
         n_type n = ACCEPTED_ANSWER \<and> n_user_id n = a_user_id answer
         \<and> n_from_user_id n = question_author_id \<and> n_answer_id n = Some accepted_id))"
proof (intro conjI impI)
  assume h: "always_stores s \<and> ObjectId question_id = Some qid
      \<and> find (\<lambda>q. q_id q = qid) (questions s) = Some question
      \<and> ObjectId answerer_id = Some uid \<and> q_user_id question \<noteq> answerer_id"
  obtain doc where d: "new_answer_docs (users s) question question_id answer_id answerer_id = [doc]"
    using h by (simp add: new_answer_docs_def)
  have "notify_new_answer question_id answer_id answerer_id s = insert_notification doc s"
    using h d notify_new_answer_docs [of question_id qid s question answerer_id uid answer_id]
    by simp
  then have "new_docs s (snd (notify_new_answer question_id answer_id answerer_id s)) = [doc]"
    using h always_stores_insert [of s doc] by (simp add: new_docs_def)
  moreover have "n_type doc = ANSWER \<and> n_user_id doc = q_user_id question
         \<and> n_from_user_id doc = answerer_id \<and> n_question_id doc = Some question_id
         \<and> n_answer_id doc = Some answer_id"
    using d h by (auto simp: new_answer_docs_def)
  ultimately show "\<exists>n \<in> set (new_docs s (snd (notify_new_answer question_id answer_id answerer_id s))).
         n_type n = ANSWER \<and> n_user_id n = q_user_id question
         \<and> n_from_user_id n = answerer_id \<and> n_question_id n = Some question_id
         \<and> n_answer_id n = Some answer_id"
    by simp
next
  assume h: "always_stores s \<and> ObjectId accepted_id = Some aid
      \<and> find (\<lambda>a. a_id a = aid) (answers s) = Some answer
      \<and> ObjectId (a_question_id answer) = Some qid2
      \<and> find (\<lambda>q. q_id q = qid2) (questions s) = Some question2
      \<and> ObjectId question_author_id = Some uid2
      \<and> a_user_id answer \<noteq> question_author_id"
  let ?doc = "\<lparr>n_user_id = a_user_id answer, n_from_user_id = question_author_id,
                n_type = ACCEPTED_ANSWER,
                n_message = sender_name (users s) question_author_id
                              @ '' accepted your answer to: '' @ q_title question2,
                n_question_id = Some (a_question_id answer), n_answer_id = Some accepted_id,
                n_read = False\<rparr>"
  have "notify_accepted_answer accepted_id question_author_id s = insert_notification ?doc s"
    using h notify_accepted_answer_docs [of accepted_id aid s answer qid2 question2
        question_author_id uid2]
    by simp
  then have "new_docs s (snd (notify_accepted_answer accepted_id question_author_id s)) = [?doc]"
    using h always_stores_insert [of s ?doc] by (simp add: new_docs_def)
  then show "\<exists>n \<in> set (new_docs s (snd (notify_accepted_answer accepted_id question_author_id s))).
         n_type n = ACCEPTED_ANSWER \<and> n_user_id n = a_user_id answer
         \<and> n_from_user_id n = question_author_id \<and> n_answer_id n = Some accepted_id"
    by simp
qed

text \<open>The equations that evaluate the handlers that create content on the example data.\<close>

lemmas ev_content = ev_answer create_ai_answer_def env_chat_def create_question_def

text \<open>
  Claim C4 (fan-out targets), the part on mentions, evaluated. The collections return at
  once, so the \<open>await\<close> in \<open>create_notification\<close> raises once the document is stored, and
  in \<open>notify_mentions\<close> that ends the loop over the names. Alice asks a question that
  mentions bob and carol: the question is stored, bob is notified, the request fails with
  the \<open>TypeError\<close>, and carol, an existing user who is mentioned and is not the author,
  is not notified; \<open>notify_mentions\<close> alone does the same on that content. Bob answers
  alice's question with a mention of carol: the notification for alice is stored, its
  \<open>await\<close> raises inside the \<open>try\<close>, and \<open>notify_mentions\<close> is never called, so carol is
  not notified. Last, \<open>create_ai_answer\<close> does not call \<open>notify_mentions\<close> at all
  (\<open>create_answer\<close> does): even when every awaited insert completes, an answer of the
  chat model that mentions carol notifies alice only.
\<close>

theorem mentioned_user_not_notified:
  "extract_mentions ''@bob and @carol, how do I sort?'' = [''bob'', ''carol'']
   \<and> mentioned_user (users db_sync) ''carol'' = Some (str_of carol_id)
   \<and> fst (create_question env0 ''sorting'' ''@bob and @carol, how do I sort?'' [] alice
            question2_id db_sync) = Raise TypeError
   \<and> map q_id (questions (snd (create_question env0 ''sorting''
                                 ''@bob and @carol, how do I sort?'' [] alice question2_id
                                 db_sync)))
       = [question1_id, question2_id]
   \<and> map (\<lambda>n. (n_type n, n_user_id n))
       (notifications (snd (create_question env0 ''sorting'' ''@bob and @carol, how do I sort?''
                              [] alice question2_id db_sync)))
       = [(MENTION, str_of bob_id)]
   \<and> fst (notify_mentions ''@bob and @carol, how do I sort?'' (str_of alice_id)
            (Some (str_of question1_id)) None db_sync) = Raise TypeError
   \<and> map (\<lambda>n. (n_type n, n_user_id n))
       (notifications (snd (notify_mentions ''@bob and @carol, how do I sort?'' (str_of alice_id)
                              (Some (str_of question1_id)) None db_sync)))
       = [(MENTION, str_of bob_id)]
   \<and> succeeded (fst (create_answer env0 (str_of question1_id) ''ask @carol about it'' bob
                       answer1_id db_sync))
   \<and> map a_content (answers (snd (create_answer env0 (str_of question1_id)
                                     ''ask @carol about it'' bob answer1_id db_sync)))
       = [''ask @carol about it'']
   \<and> map (\<lambda>n. (n_type n, n_user_id n))
       (notifications (snd (create_answer env0 (str_of question1_id) ''ask @carol about it'' bob
                              answer1_id db_sync)))
       = [(ANSWER, str_of alice_id)]
   \<and> succeeded (fst (create_ai_answer env_chat (str_of question1_id) bob answer1_id
                       db_completes))
   \<and> map a_content (answers (snd (create_ai_answer env_chat (str_of question1_id) bob
                                     answer1_id db_completes)))
       = [''Ask @carol about it.'']
   \<and> map (\<lambda>n. (n_type n, n_user_id n))
       (notifications (snd (create_ai_answer env_chat (str_of question1_id) bob answer1_id
                              db_completes)))
       = [(ANSWER, str_of alice_id)]"
  by (simp add: ev_content)

section \<open>What the notification steps leave alone\<close>

lemma mention_loop_frame:
  "users (snd (mention_loop fu f q a names s)) = users s
   \<and> questions (snd (mention_loop fu f q a names s)) = questions s
   \<and> answers (snd (mention_loop fu f q a names s)) = answers s
   \<and> await_insert (snd (mention_loop fu f q a names s)) = await_insert s"
proof (induction names arbitrary: s)
  case Nil
  show ?case by simp
next
  case (Cons name rest)
  show ?case
  proof (cases "find (\<lambda>u. username u = name) (users s)")
    case None
    then show ?thesis using Cons.IH [of s] by simp
  next
    case (Some mu)
    obtain r s' where c: "create_notification (str_of (u_id mu)) f MENTION
        (fu @ '' mentioned you in a post'') q a s = (r, s')"
      by (cases "create_notification (str_of (u_id mu)) f MENTION (fu @ '' mentioned you in a post'') q a s")
    have fr: "users s' = users s \<and> questions s' = questions s \<and> answers s' = answers s
        \<and> await_insert s' = await_insert s"
      using create_notification_frame [of "str_of (u_id mu)" f MENTION "fu @ '' mentioned you in a post''" q a s] c
      by simp
    show ?thesis
    proof (cases r)
      case (Raise x)
      then show ?thesis using Some c fr by simp
    next
      case (Return v)
      then show ?thesis using Some c fr Cons.IH [of s'] by simp
    qed
  qed
qed

lemma notify_mentions_frame:
  "users (snd (notify_mentions content f q a s)) = users s
   \<and> questions (snd (notify_mentions content f q a s)) = questions s
   \<and> answers (snd (notify_mentions content f q a s)) = answers s
   \<and> await_insert (snd (notify_mentions content f q a s)) = await_insert s"
  by (simp add: notify_mentions_def Let_def mention_loop_frame split: option.splits)

section \<open>Moderation of questions\<close>

lemma is_toxic_flag: "fst (is_toxic e text (1 / 2)) \<longleftrightarrow> snd (is_toxic e text (1 / 2)) \<ge> 1 / 2"
  by (simp add: is_toxic_def Let_def)

lemma create_question_toxic:
  assumes "fst (is_toxic e (title @ '' '' @ description) (1 / 2))"
  shows "create_question e title description tags current_user new_id s
           = (Raise (HTTPException 400 question_guidelines), s)"
proof -
  obtain b sc where t: "is_toxic e (title @ '' '' @ description) (1 / 2) = (b, sc)"
    by (cases "is_toxic e (title @ '' '' @ description) (1 / 2)")
  with assms have "b" by simp
  then show ?thesis using t by (simp add: create_question_def Let_def)
qed

lemma create_question_questions:
  assumes "\<not> fst (is_toxic e (title @ '' '' @ description) (1 / 2))"
  shows "questions (snd (create_question e title description tags current_user new_id s))
           = questions s @
             [\<lparr>q_id = new_id, q_title = title, q_description = description,
               q_tags = take 10 (set_order e (tags @ extract_single_word_tags e title description 8)),
               q_user_id = str_of (u_id current_user), q_answers = [], q_accepted_answer = None,
               q_toxic_score = snd (is_toxic e (title @ '' '' @ description) (1 / 2))\<rparr>]"
proof -
  obtain b sc where t: "is_toxic e (title @ '' '' @ description) (1 / 2) = (b, sc)"
    by (cases "is_toxic e (title @ '' '' @ description) (1 / 2)")
  with assms have b: "\<not> b" by simp
  let ?doc = "\<lparr>q_id = new_id, q_title = title, q_description = description,
               q_tags = take 10 (set_order e (tags @ extract_single_word_tags e title description 8)),
               q_user_id = str_of (u_id current_user), q_answers = [], q_accepted_answer = None,
               q_toxic_score = sc\<rparr>"
  let ?s1 = "s\<lparr>questions := questions s @ [?doc]\<rparr>"
  obtain r s2 where n: "notify_mentions (title @ '' '' @ description) (str_of (u_id current_user))
      (Some (str_of new_id)) None ?s1 = (r, s2)"
    by (cases "notify_mentions (title @ '' '' @ description) (str_of (u_id current_user))
                 (Some (str_of new_id)) None ?s1")
  have fr: "questions s2 = questions ?s1"
    using notify_mentions_frame [of "title @ '' '' @ description" "str_of (u_id current_user)"
        "Some (str_of new_id)" None ?s1] n by simp
  have "questions (snd (create_question e title description tags current_user new_id s)) = questions s2"
    using t b n
    by (cases r) (simp_all add: create_question_def Let_def auto_tag_question_def
        split: option.splits)
  then show ?thesis using fr t by simp
qed

text \<open>
  Claim C6 (moderation blocks the creation of a question). When \<open>is_toxic\<close> flags the title,
  a space and the description, \<open>create_question\<close> raises the HTTP error 400 and leaves the
  whole store as it was: no question and no notification is written. When it does not, the
  question is appended to the collection. The flag is raised exactly when the score is at
  least the threshold 0.5.
\<close>

theorem toxic_question_blocked:
  "(fst (is_toxic e (title @ '' '' @ description) (1 / 2)) \<longrightarrow>
      create_question e title description tags current_user new_id s
        = (Raise (HTTPException 400 question_guidelines), s))
   \<and> (\<not> fst (is_toxic e (title @ '' '' @ description) (1 / 2)) \<longrightarrow>
      (\<exists>doc. questions (snd (create_question e title description tags current_user new_id s))
                = questions s @ [doc]
            \<and> q_id doc = new_id \<and> q_title doc = title \<and> q_description doc = description
            \<and> q_user_id doc = str_of (u_id current_user)))
   \<and> (fst (is_toxic e (title @ '' '' @ description) (1 / 2))
        \<longleftrightarrow> snd (is_toxic e (title @ '' '' @ description) (1 / 2)) \<ge> 1 / 2)"
  using create_question_toxic [of e title description tags current_user new_id s]
    create_question_questions [of e title description tags current_user new_id s]
    is_toxic_flag [of e "title @ '' '' @ description"]
  by simp

theorem toxic_question_blocked_witness:
  "fst (is_toxic env0 (''Sorting'' @ '' '' @ ''I hate sorting lists'') (1 / 2))
   \<and> create_question env0 ''Sorting'' ''I hate sorting lists'' [''lists''] bob question2_id
        db_completes
        = (Raise (HTTPException 400 question_guidelines), db_completes)
   \<and> \<not> fst (is_toxic env0 (''Sorting'' @ '' '' @ ''How to sort lists?'') (1 / 2))
   \<and> map q_id (questions
        (snd (create_question env0 ''Sorting'' ''How to sort lists?'' [''lists''] bob question2_id
                db_completes)))
       = [question1_id, question2_id]"
proof -
  have t: "fst (is_toxic env0 (''Sorting'' @ '' '' @ ''I hate sorting lists'') (1 / 2))"
    by (simp add: is_toxic_def env0_def toxic_words_def py_lower_def lower_char_def
        is_upper_char_def code_def)
  have n: "\<not> fst (is_toxic env0 (''Sorting'' @ '' '' @ ''How to sort lists?'') (1 / 2))"
    by (simp add: is_toxic_def env0_def toxic_words_def py_lower_def lower_char_def
        is_upper_char_def code_def)
  have q: "map q_id (questions db_completes) = [question1_id]"
    by (simp add: db_completes_def db0_def question1_def)
  show ?thesis
    using t n q
      toxic_question_blocked [of env0 "''Sorting''" "''I hate sorting lists''" "[''lists'']" bob
        question2_id db_completes]
      toxic_question_blocked [of env0 "''Sorting''" "''How to sort lists?''" "[''lists'']" bob
        question2_id db_completes]
    by auto
qed

section \<open>Tags of a new question\<close>

text \<open>
  Claim C9 (tags of a created question). For a question that passes moderation, the stored
  list of tags is the first ten entries of the set built from the tags of the user followed
  by the suggested ones: it has no duplicates, every entry comes from one of the two lists,
  there are at most ten, and when the two lists have at most ten different entries
  together, all of them are stored.
\<close>

theorem stored_tags_bounded:
  assumes "\<not> fst (is_toxic e (title @ '' '' @ description) (1 / 2))"
    and "enumerates_sets e"
  shows "\<exists>doc. questions (snd (create_question e title description tags current_user new_id s))
                = questions s @ [doc]
          \<and> q_tags doc
              = take 10 (set_order e (tags @ tq_tags (auto_tag_question e title description 8)))
          \<and> distinct (q_tags doc)
          \<and> set (q_tags doc)
              \<subseteq> set tags \<union> set (tq_tags (auto_tag_question e title description 8))
          \<and> length (q_tags doc) \<le> 10
          \<and> (card (set tags \<union> set (tq_tags (auto_tag_question e title description 8))) \<le> 10
               \<longrightarrow> set (q_tags doc)
                     = set tags \<union> set (tq_tags (auto_tag_question e title description 8)))"
proof -
  let ?ai = "tq_tags (auto_tag_question e title description 8)"
  let ?all = "set_order e (tags @ ?ai)"
  have d: "distinct ?all" and st: "set ?all = set tags \<union> set ?ai"
    using assms(2) by (simp_all add: enumerates_sets_def)
  let ?doc = "\<lparr>q_id = new_id, q_title = title, q_description = description,
               q_tags = take 10 ?all,
               q_user_id = str_of (u_id current_user), q_answers = [], q_accepted_answer = None,
               q_toxic_score = snd (is_toxic e (title @ '' '' @ description) (1 / 2))\<rparr>"
  have q: "questions (snd (create_question e title description tags current_user new_id s))
             = questions s @ [?doc]"
    using create_question_questions [OF assms(1), of tags current_user new_id s]
    by (simp add: auto_tag_question_def)
  have sub: "set (take 10 ?all) \<subseteq> set tags \<union> set ?ai"
    using set_take_subset [of 10 ?all] st by simp
  have full: "card (set tags \<union> set ?ai) \<le> 10 \<longrightarrow> set (take 10 ?all) = set tags \<union> set ?ai"
  proof
    assume "card (set tags \<union> set ?ai) \<le> 10"
    then have "length ?all \<le> 10" using d st distinct_card [of ?all] by simp
    then show "set (take 10 ?all) = set tags \<union> set ?ai" using st by simp
  qed
  show ?thesis
    using q d sub full by (intro exI [of _ ?doc]) simp
qed

theorem stored_tags_bounded_witness:
  "\<not> fst (is_toxic env0 (''Sorting'' @ '' '' @ ''How to sort lists?'') (1 / 2))
   \<and> enumerates_sets env0
   \<and> (\<exists>doc. questions
          (snd (create_question env0 ''Sorting'' ''How to sort lists?'' [''lists'', ''sorting'']
                  bob question2_id db_completes))
          = questions db_completes @ [doc]
        \<and> distinct (q_tags doc) \<and> length (q_tags doc) \<le> 10)"
proof -
  have n: "\<not> fst (is_toxic env0 (''Sorting'' @ '' '' @ ''How to sort lists?'') (1 / 2))"
    by (simp add: is_toxic_def env0_def toxic_words_def py_lower_def lower_char_def
        is_upper_char_def code_def)
  have o: "enumerates_sets env0"
    by (simp add: enumerates_sets_def env0_def)
  show ?thesis
    using n o stored_tags_bounded [OF n o, of "[''lists'', ''sorting'']" bob question2_id db_completes]
    by blast
qed

section \<open>Ranked search\<close>

text \<open>
  Claim C7 (semantic search returns the ranked top results). \<open>smart_search\<close> returns as many
  pairs as the smaller of \<open>top_k\<close> and the number of questions, in non-increasing order of
  score; each pair is a question of the list with the similarity of the query to it; and
  together with the pairs left out they are all the questions, none of those left out
  scoring higher than a returned one.
\<close>

theorem smart_search_ranked:
  "length (smart_search sim query qs top_k) = min top_k (length qs)
   \<and> sorted_wrt (\<lambda>x y. snd x \<ge> snd y) (smart_search sim query qs top_k)
   \<and> (\<forall>p \<in> set (smart_search sim query qs top_k).
         fst p \<in> set qs \<and> snd p = sim query (fst p))
   \<and> (\<exists>rest. mset (smart_search sim query qs top_k @ rest)
                = mset (map (\<lambda>q. (q, sim query q)) qs)
              \<and> (\<forall>p \<in> set (smart_search sim query qs top_k). \<forall>r \<in> set rest.
                    snd r \<le> snd p))"
proof -
  let ?pairs = "map (\<lambda>q. (q, sim query q)) qs"
  let ?sorted = "sort_key (\<lambda>x. - snd x) ?pairs"
  have res: "smart_search sim query qs top_k = take top_k ?sorted"
    by (simp add: smart_search_def Let_def)
  have len: "length (take top_k ?sorted) = min top_k (length qs)"
    by (simp add: min.commute)
  have "sorted (map (\<lambda>x. - snd x) ?sorted)" by (rule sorted_sort_key)
  then have desc: "sorted_wrt (\<lambda>x y. snd x \<ge> snd y) ?sorted"
    by (simp add: sorted_map)
  then have "sorted_wrt (\<lambda>x y. snd x \<ge> snd y) (take top_k ?sorted @ drop top_k ?sorted)"
    by simp
  then have ord: "sorted_wrt (\<lambda>x y. snd x \<ge> snd y) (take top_k ?sorted)"
    and best: "\<forall>p \<in> set (take top_k ?sorted). \<forall>r \<in> set (drop top_k ?sorted). snd r \<le> snd p"
    unfolding sorted_wrt_append by blast+
  have "set (take top_k ?sorted) \<subseteq> set ?pairs"
    using set_take_subset [of top_k ?sorted] by simp
  then have mem: "\<forall>p \<in> set (take top_k ?sorted). fst p \<in> set qs \<and> snd p = sim query (fst p)"
    by auto
  have all: "mset (take top_k ?sorted @ drop top_k ?sorted) = mset ?pairs"
    by simp
  show ?thesis
    unfolding res using len ord mem all best by blast
qed

theorem smart_search_ranked_witness:
  "smart_search (\<lambda>query q. q) ''sorting'' [1 / 2, 3 / 4, 1 / 4, 9 / 10] 3
     = [(9 / 10, 9 / 10), (3 / 4, 3 / 4), (1 / 2, 1 / 2)]
   \<and> length (smart_search (\<lambda>query q. q) ''sorting'' [1 / 2, 3 / 4, 1 / 4, 9 / 10] 3)
       = min 3 (length [1 / 2, 3 / 4, 1 / 4, 9 / 10 :: rat])
   \<and> sorted_wrt (\<lambda>x y. snd x \<ge> snd y)
        (smart_search (\<lambda>query q. q) ''sorting'' [1 / 2, 3 / 4, 1 / 4, 9 / 10 :: rat] 3)"
proof -
  have "smart_search (\<lambda>query q. q) ''sorting'' [1 / 2, 3 / 4, 1 / 4, 9 / 10 :: rat] 3
     = [(9 / 10, 9 / 10), (3 / 4, 3 / 4), (1 / 2, 1 / 2)]"
    by (simp add: smart_search_def Let_def)
  then show ?thesis
    using smart_search_ranked [of "\<lambda>query q. q" "''sorting''" "[1 / 2, 3 / 4, 1 / 4, 9 / 10 :: rat]" 3]
    by simp
qed

section \<open>Votes\<close>

lemma update_one_others:
  "(\<And>x. P (f x) = P x) \<Longrightarrow>
     filter (\<lambda>x. \<not> P x) (update_one P f xs) = filter (\<lambda>x. \<not> P x) xs"
  by (induction xs) simp_all

lemma update_one_map: "(\<And>x. g (f x) = g x) \<Longrightarrow> map g (update_one P f xs) = map g xs"
  by (induction xs) simp_all

lemma update_one_id: "(\<And>x. f x = x) \<Longrightarrow> update_one P f xs = xs"
  by (induction xs) simp_all

lemma vote_answer_run:
  assumes i: "ObjectId answer_id = Some aid"
    and f: "find (\<lambda>a. a_id a = aid) (answers s) = Some answer"
    and o: "a_user_id answer \<noteq> str_of (u_id current_user)"
  shows "vote_answer answer_id action current_user s
           = (Return (''Vote '' @ action @ '' applied successfully'',
                      a_votes answer + vote_delta action),
              s\<lparr>answers := update_one (\<lambda>a. a_id a = aid)
                              (\<lambda>a. a\<lparr>a_votes := a_votes a + vote_delta action\<rparr>) (answers s)\<rparr>)"
proof -
  have fu: "\<And>d. find (\<lambda>a. a_id a = aid)
                (update_one (\<lambda>a. a_id a = aid) (\<lambda>a. a\<lparr>a_votes := a_votes a + d\<rparr>) (answers s))
              = Some (answer\<lparr>a_votes := a_votes answer + d\<rparr>)"
    using f by (simp add: find_update_one)
  consider "action = ''upvote''" | "action = ''downvote''"
    | "action \<noteq> ''upvote''" "action \<noteq> ''downvote''"
    by blast
  then show ?thesis
  proof cases
    case 1
    then show ?thesis using i f o fu [of 1] by (simp add: vote_answer_def vote_delta_def)
  next
    case 2
    then show ?thesis using i f o fu [of "- 1"] by (simp add: vote_answer_def vote_delta_def)
  next
    case 3
    have "update_one (\<lambda>a. a_id a = aid) (\<lambda>a. a\<lparr>a_votes := a_votes a + 0\<rparr>) (answers s)
            = answers s"
      by (rule update_one_id) simp
    then show ?thesis using 3 i f o by (simp add: vote_answer_def vote_delta_def)
  qed
qed

text \<open>
  Claim C10 (votes). On an existing answer, a vote by the author of the answer fails with
  the HTTP error 400 and changes nothing. A vote by anybody else succeeds: \<open>upvote\<close> raises
  the vote count of the answer by one, \<open>downvote\<close> lowers it by one and \<open>remove\<close> leaves it;
  the new count is returned; the other fields of every answer, the other answers and the
  other collections stay as they were.
\<close>

theorem vote_semantics:
  assumes i: "ObjectId answer_id = Some aid"
    and f: "find (\<lambda>a. a_id a = aid) (answers s) = Some answer"
  shows "(a_user_id answer = str_of (u_id current_user) \<longrightarrow>
            vote_answer answer_id action current_user s
              = (Raise (HTTPException 400 ''You cannot vote on your own answer''), s))
       \<and> (a_user_id answer \<noteq> str_of (u_id current_user) \<and> action \<in> {''upvote'', ''downvote'', ''remove''} \<longrightarrow>
            (let (r, s') = vote_answer answer_id action current_user s;
                 d = (if action = ''upvote'' then 1 else if action = ''downvote'' then - 1 else 0)
             in r = Return (''Vote '' @ action @ '' applied successfully'', a_votes answer + d)
                \<and> find (\<lambda>a. a_id a = aid) (answers s')
                    = Some (answer\<lparr>a_votes := a_votes answer + d\<rparr>)
                \<and> map without_votes (answers s') = map without_votes (answers s)
                \<and> filter (\<lambda>a. a_id a \<noteq> aid) (answers s')
                    = filter (\<lambda>a. a_id a \<noteq> aid) (answers s)
                \<and> users s' = users s \<and> questions s' = questions s
                \<and> notifications s' = notifications s))"
proof (intro conjI impI)
  assume "a_user_id answer = str_of (u_id current_user)"
  then show "vote_answer answer_id action current_user s
              = (Raise (HTTPException 400 ''You cannot vote on your own answer''), s)"
    using i f by (simp add: vote_answer_def)
next
  assume h: "a_user_id answer \<noteq> str_of (u_id current_user) \<and> action \<in> {''upvote'', ''downvote'', ''remove''}"
  let ?d = "vote_delta action"
  let ?as = "update_one (\<lambda>a. a_id a = aid) (\<lambda>a. a\<lparr>a_votes := a_votes a + ?d\<rparr>) (answers s)"
  have run: "vote_answer answer_id action current_user s
           = (Return (''Vote '' @ action @ '' applied successfully'', a_votes answer + ?d),
              s\<lparr>answers := ?as\<rparr>)"
    using vote_answer_run [OF i f, of current_user action] h by simp
  have a: "find (\<lambda>a. a_id a = aid) ?as = Some (answer\<lparr>a_votes := a_votes answer + ?d\<rparr>)"
    using f by (simp add: find_update_one)
  have b: "map without_votes ?as = map without_votes (answers s)"
    by (rule update_one_map) (simp add: without_votes_def)
  have c: "filter (\<lambda>a. a_id a \<noteq> aid) ?as = filter (\<lambda>a. a_id a \<noteq> aid) (answers s)"
    using update_one_others [of "\<lambda>a. a_id a = aid" "\<lambda>a. a\<lparr>a_votes := a_votes a + ?d\<rparr>" "answers s"]
    by simp
  show "let (r, s') = vote_answer answer_id action current_user s;
                 d = (if action = ''upvote'' then 1 else if action = ''downvote'' then - 1 else 0)
             in r = Return (''Vote '' @ action @ '' applied successfully'', a_votes answer + d)
                \<and> find (\<lambda>a. a_id a = aid) (answers s')
                    = Some (answer\<lparr>a_votes := a_votes answer + d\<rparr>)
                \<and> map without_votes (answers s') = map without_votes (answers s)
                \<and> filter (\<lambda>a. a_id a \<noteq> aid) (answers s')
                    = filter (\<lambda>a. a_id a \<noteq> aid) (answers s)
                \<and> users s' = users s \<and> questions s' = questions s
                \<and> notifications s' = notifications s"
    using run a b c by (simp add: Let_def vote_delta_def)
qed

theorem vote_semantics_witness:
  "ObjectId (str_of answer1_id) = Some answer1_id
   \<and> find (\<lambda>a. a_id a = answer1_id) (answers db1) = Some answer1
   \<and> a_user_id answer1 = str_of (u_id bob)
   \<and> vote_answer (str_of answer1_id) ''upvote'' bob db1
       = (Raise (HTTPException 400 ''You cannot vote on your own answer''), db1)
   \<and> a_user_id answer1 \<noteq> str_of (u_id alice)
   \<and> fst (vote_answer (str_of answer1_id) ''upvote'' alice db1)
       = Return (''Vote upvote applied successfully'', 1)
   \<and> fst (vote_answer (str_of answer1_id) ''downvote'' alice db1)
       = Return (''Vote downvote applied successfully'', - 1)
   \<and> fst (vote_answer (str_of answer1_id) ''remove'' alice db1)
       = Return (''Vote remove applied successfully'', 0)"
proof -
  have i: "ObjectId (str_of answer1_id) = Some answer1_id"
    by (rule ObjectId_str_of)
  have f: "find (\<lambda>a. a_id a = answer1_id) (answers db1) = Some answer1"
    by (simp add: db1_def answer1_def)
  have own: "a_user_id answer1 = str_of (u_id bob)"
    and other: "a_user_id answer1 \<noteq> str_of (u_id alice)"
    and v: "a_votes answer1 = 0"
    by (simp_all add: answer1_def bob_def alice_def str_of_examples)
  show ?thesis
    using i f own other v vote_semantics [OF i f, of bob "''upvote''"]
      vote_semantics [OF i f, of alice "''upvote''"]
      vote_semantics [OF i f, of alice "''downvote''"]
      vote_semantics [OF i f, of alice "''remove''"]
    by (simp add: Let_def split: prod.splits)
qed

section \<open>Accepted answers\<close>

text \<open>
  Deleting an accepted answer resets the \<open>accepted_answer\<close> of its question.
\<close>

lemma delete_accepted_resets:
  assumes "ObjectId answer_id = Some aid"
    and "find (\<lambda>a. a_id a = aid) (answers s) = Some answer"
    and "a_user_id answer = str_of (u_id current_user) \<or> role current_user = ''admin''"
    and "a_is_accepted answer"
    and "ObjectId (a_question_id answer) = Some qid"
    and "find (\<lambda>q. q_id q = qid) (questions s) = Some question"
  shows "fst (delete_answer answer_id current_user s) = Return ()
       \<and> find (\<lambda>q. q_id q = qid) (questions (snd (delete_answer answer_id current_user s)))
           = Some (question\<lparr>q_answers := removeAll answer_id (q_answers question),
                            q_accepted_answer := None\<rparr>)"
  using assms by (auto simp add: delete_answer_def Let_def find_update_one)

text \<open>The equations that evaluate the run of alice's four requests.\<close>

lemmas ev_accept = ev_answer accept_answer_def notify_accepted_answer_def update_many_def
  accepted_of_def answer1_def db_answered_def db_accepted_def db_answered_again_def
  db_accepted_again_def

text \<open>
  Claim C8 (one accepted answer for a question), evaluated on the run of alice's four
  requests. \<open>ObjectId\<close> reads an identifier whatever the case of its hexadecimal digits,
  so \<open>create_answer\<close> finds the question under the identifier written with a capital
  digit; the answer document then keeps that string as its \<open>question_id\<close>. When the second
  answer is accepted, the \<open>update_many\<close> that removes the earlier acceptance selects the
  answers whose \<open>question_id\<close> is that very string: the first answer, whose \<open>question_id\<close>
  is written in lower case, stays accepted. Every request succeeds, and in the end the
  question has two accepted answers, of which its \<open>accepted_answer\<close> names the second.
  In the same way the question takes the string of the request as its \<open>accepted_answer\<close>:
  accepting the first answer under its identifier written with a capital digit stores
  that string, which is not the \<open>str\<close> of the \<open>_id\<close> of the answer.
\<close>

theorem two_accepted_answers:
  "succeeded (fst (create_answer env0 ''00000000000000000000000a'' ''Use the sorted function.''
                     alice answer1_id db_sync))
   \<and> fst (accept_answer ''0000000000000000000000b1'' alice db_answered)
       = Return ''Answer accepted successfully''
   \<and> map a_id (accepted_of db_accepted question1_id) = [answer1_id]
   \<and> succeeded (fst (create_answer env0 ''00000000000000000000000A'' ''Use the sort method.''
                       alice answer2_id db_accepted))
   \<and> fst (accept_answer ''0000000000000000000000b2'' alice db_answered_again)
       = Return ''Answer accepted successfully''
   \<and> map (\<lambda>a. (a_id a, a_question_id a, a_is_accepted a)) (answers db_accepted_again)
       = [(answer1_id, ''00000000000000000000000a'', True),
          (answer2_id, ''00000000000000000000000A'', True)]
   \<and> map a_id (accepted_of db_accepted_again question1_id) = [answer1_id, answer2_id]
   \<and> map (\<lambda>q. (q_id q, q_answers q, q_accepted_answer q)) (questions db_accepted_again)
       = [(question1_id, [''0000000000000000000000b1'', ''0000000000000000000000b2''],
           Some ''0000000000000000000000b2'')]
   \<and> fst (accept_answer ''0000000000000000000000B1'' alice db_answered)
       = Return ''Answer accepted successfully''
   \<and> map q_accepted_answer (questions (snd (accept_answer ''0000000000000000000000B1'' alice
                                                db_answered)))
       = [Some ''0000000000000000000000B1'']
   \<and> str_of answer1_id = ''0000000000000000000000b1''"
  by (simp add: ev_accept)

section \<open>Well-formed tags\<close>

lemma lower_char_idem: "lower_char (lower_char c) = lower_char c"
proof (cases "is_upper_char c")
  case True
  then have "code (char_of (code c + 32)) = code c + 32"
    by (simp add: code_def is_upper_char_def)
  then have "\<not> is_upper_char (char_of (code c + 32))"
    using True by (simp add: is_upper_char_def)
  then show ?thesis using True by (simp add: lower_char_def)
next
  case False
  then show ?thesis by (simp add: lower_char_def)
qed

lemma lower_fixed:
  assumes "set w \<subseteq> set (py_lower s)"
  shows "py_lower w = w"
proof -
  have "\<And>c. c \<in> set w \<Longrightarrow> lower_char c = c"
  proof -
    fix c assume "c \<in> set w"
    then have "c \<in> lower_char ` set s" using assms by (auto simp: py_lower_def)
    then obtain d where "c = lower_char d" by blast
    then show "lower_char c = c" by (simp add: lower_char_idem)
  qed
  then show ?thesis unfolding py_lower_def by (intro map_idI)
qed

lemma set_py_strip: "set (py_strip s) \<subseteq> set s"
proof
  fix c assume "c \<in> set (py_strip s)"
  then have "c \<in> set (dropWhile py_isspace (rev (dropWhile py_isspace s)))"
    by (simp add: py_strip_def)
  then have "c \<in> set (rev (dropWhile py_isspace s))" by (rule set_dropWhileD)
  then have "c \<in> set (dropWhile py_isspace s)" by simp
  then show "c \<in> set s" by (rule set_dropWhileD)
qed

lemma split_from_words:
  "w \<in> set (split_from cur s) \<Longrightarrow> \<forall>c \<in> set cur. \<not> py_isspace c \<Longrightarrow>
     (\<forall>c \<in> set w. \<not> py_isspace c) \<and> set w \<subseteq> set cur \<union> set s \<and> w \<noteq> []"
proof (induction s arbitrary: cur)
  case Nil
  then show ?case by (cases "cur = []") simp_all
next
  case (Cons c cs)
  show ?case
  proof (cases "py_isspace c")
    case sp: True
    show ?thesis
    proof (cases "cur = []")
      case True
      then have "w \<in> set (split_from [] cs)" using Cons.prems(1) sp by simp
      then have "(\<forall>c \<in> set w. \<not> py_isspace c) \<and> set w \<subseteq> set [] \<union> set cs \<and> w \<noteq> []"
        by (rule Cons.IH) simp
      then show ?thesis by auto
    next
      case False
      then have "w = cur \<or> w \<in> set (split_from [] cs)" using Cons.prems(1) sp by simp
      then show ?thesis
      proof
        assume "w = cur"
        then show ?thesis using False Cons.prems(2) by auto
      next
        assume "w \<in> set (split_from [] cs)"
        then have "(\<forall>c \<in> set w. \<not> py_isspace c) \<and> set w \<subseteq> set [] \<union> set cs \<and> w \<noteq> []"
          by (rule Cons.IH) simp
        then show ?thesis by auto
      qed
    qed
  next
    case False
    then have "w \<in> set (split_from (cur @ [c]) cs)" using Cons.prems(1) by simp
    moreover have "\<forall>x \<in> set (cur @ [c]). \<not> py_isspace x" using False Cons.prems(2) by simp
    ultimately have "(\<forall>c \<in> set w. \<not> py_isspace c) \<and> set w \<subseteq> set (cur @ [c]) \<union> set cs \<and> w \<noteq> []"
      by (rule Cons.IH)
    then show ?thesis by auto
  qed
qed

lemma py_split_words:
  "w \<in> set (py_split s) \<Longrightarrow> (\<forall>c \<in> set w. \<not> py_isspace c) \<and> set w \<subseteq> set s \<and> w \<noteq> []"
  using split_from_words [of w "[]" s] by (simp add: py_split_def)

text \<open>A word that has no whitespace at its ends but some inside splits into two or more.\<close>

lemma split_from_nonempty:
  "s \<noteq> [] \<Longrightarrow> \<not> py_isspace (last s) \<Longrightarrow> split_from cur s \<noteq> []"
proof (induction s arbitrary: cur)
  case Nil
  then show ?case by simp
next
  case (Cons c cs)
  show ?case
  proof (cases "cs = []")
    case True
    then have "\<not> py_isspace c" using Cons.prems(2) by simp
    then show ?thesis using True by simp
  next
    case False
    then have l: "\<not> py_isspace (last cs)" using Cons.prems(2) by simp
    have ih: "\<And>cur. split_from cur cs \<noteq> []" using Cons.IH [OF False l] .
    show ?thesis
    proof (cases "py_isspace c")
      case True
      then show ?thesis using ih [of "[]"] by simp
    next
      case False
      then show ?thesis using ih [of "cur @ [c]"] by simp
    qed
  qed
qed

lemma split_from_two:
  "cur \<noteq> [] \<Longrightarrow> \<exists>c \<in> set s. py_isspace c \<Longrightarrow> \<not> py_isspace (last s) \<Longrightarrow>
     2 \<le> length (split_from cur s)"
proof (induction s arbitrary: cur)
  case Nil
  then show ?case by simp
next
  case (Cons c cs)
  show ?case
  proof (cases "py_isspace c")
    case True
    then have ne: "cs \<noteq> []" using Cons.prems(3) by auto
    then have "\<not> py_isspace (last cs)" using Cons.prems(3) by simp
    then have "split_from [] cs \<noteq> []" using ne by (rule split_from_nonempty [rotated])
    then have "1 \<le> length (split_from [] cs)" by (cases "split_from [] cs") simp_all
    then show ?thesis using True Cons.prems(1) by simp
  next
    case False
    then have ex: "\<exists>x \<in> set cs. py_isspace x" using Cons.prems(2) by auto
    then have ne: "cs \<noteq> []" by auto
    then have l: "\<not> py_isspace (last cs)" using Cons.prems(3) by simp
    have "2 \<le> length (split_from (cur @ [c]) cs)"
      by (rule Cons.IH [OF _ ex l]) simp
    then show ?thesis using False by simp
  qed
qed

lemma last_dropWhile_nonempty:
  assumes "dropWhile P xs \<noteq> []"
  shows "last (dropWhile P xs) = last xs"
proof -
  have "last (takeWhile P xs @ dropWhile P xs) = last (dropWhile P xs)"
    using assms by (rule last_appendR)
  then show ?thesis by simp
qed

lemma py_strip_ends:
  assumes "py_strip x \<noteq> []"
  shows "\<not> py_isspace (hd (py_strip x)) \<and> \<not> py_isspace (last (py_strip x))"
proof -
  let ?a = "dropWhile py_isspace x"
  let ?b = "dropWhile py_isspace (rev ?a)"
  have s: "py_strip x = rev ?b" by (simp add: py_strip_def)
  have b: "?b \<noteq> []" using assms s by simp
  have hb: "\<not> py_isspace (hd ?b)" using b by (rule hd_dropWhile)
  have a: "?a \<noteq> []"
  proof
    assume e: "?a = []"
    have "?b = []" unfolding e by simp
    then show False using b by simp
  qed
  have ha: "\<not> py_isspace (hd ?a)" using a by (rule hd_dropWhile)
  have "last ?b = last (rev ?a)" using b by (rule last_dropWhile_nonempty)
  then have lb: "last ?b = hd ?a" by (simp add: last_rev)
  have "hd (py_strip x) = last ?b" unfolding s by (rule hd_rev)
  moreover have "last (py_strip x) = hd ?b" unfolding s by (rule last_rev)
  ultimately show ?thesis using hb ha lb by simp
qed

lemma stripped_single_word:
  assumes "length (py_split (py_strip x)) = 1"
  shows "\<forall>c \<in> set (py_strip x). \<not> py_isspace c"
proof (rule ccontr)
  assume "\<not> (\<forall>c \<in> set (py_strip x). \<not> py_isspace c)"
  then have ex: "\<exists>c \<in> set (py_strip x). py_isspace c" by simp
  then have ne: "py_strip x \<noteq> []" by auto
  then obtain c cs where k: "py_strip x = c # cs" by (cases "py_strip x") simp_all
  have ends: "\<not> py_isspace c" "\<not> py_isspace (last (c # cs))"
    using py_strip_ends [OF ne] k by simp_all
  then have exs: "\<exists>d \<in> set cs. py_isspace d" using ex k by auto
  then have "cs \<noteq> []" by auto
  then have l: "\<not> py_isspace (last cs)" using ends(2) by simp
  have "2 \<le> length (split_from [c] cs)"
    by (rule split_from_two [OF _ exs l]) simp
  moreover have "py_split (py_strip x) = split_from [c] cs"
    using k ends(1) by (simp add: py_split_def)
  ultimately show False using assms by simp
qed

lemma is_good_facts:
  "is_good_single_word e w \<Longrightarrow> length (py_split w) = 1 \<and> \<not> py_isdigit w \<and> 2 < length w"
  by (simp add: is_good_single_word_def split: if_splits)

lemma good_word_well_formed:
  assumes "is_good_single_word e w" and "\<forall>c \<in> set w. \<not> py_isspace c" and "py_lower w = w"
  shows "well_formed_tag w"
  using assms is_good_facts [OF assms(1)] by (simp add: well_formed_tag_def list_all_iff)

lemma fallback_loop_tags:
  "\<forall>w \<in> set words. (\<forall>c \<in> set w. \<not> py_isspace c) \<and> py_lower w = w \<Longrightarrow>
   list_all well_formed_tag tags \<Longrightarrow> distinct tags \<Longrightarrow> set tags \<subseteq> seen \<Longrightarrow>
     list_all well_formed_tag (fallback_loop e top_k words tags seen)
     \<and> distinct (fallback_loop e top_k words tags seen)
     \<and> length (fallback_loop e top_k words tags seen) \<le> max top_k (Suc (length tags))"
proof (induction words arbitrary: tags seen)
  case Nil
  then show ?case by simp
next
  case (Cons word words)
  have rest: "\<forall>w \<in> set words. (\<forall>c \<in> set w. \<not> py_isspace c) \<and> py_lower w = w"
    using Cons.prems(1) by simp
  show ?case
  proof (cases "word \<notin> seen \<and> is_good_single_word e word \<and> length word > 3")
    case False
    then have "fallback_loop e top_k (word # words) tags seen = fallback_loop e top_k words tags seen"
      by auto
    then show ?thesis using Cons.IH [OF rest Cons.prems(2) Cons.prems(3) Cons.prems(4)] by simp
  next
    case True
    have wf: "well_formed_tag word"
      using good_word_well_formed [of e word] True Cons.prems(1) by simp
    have t1: "list_all well_formed_tag (tags @ [word])" using wf Cons.prems(2) by simp
    have t2: "distinct (tags @ [word])" using True Cons.prems(3) Cons.prems(4) by auto
    have t3: "set (tags @ [word]) \<subseteq> insert word seen" using Cons.prems(4) by auto
    show ?thesis
    proof (cases "length (tags @ [word]) \<ge> top_k")
      case stop: True
      then have "fallback_loop e top_k (word # words) tags seen = tags @ [word]"
        using True by simp
      then show ?thesis using t1 t2 by simp
    next
      case go: False
      then have r: "fallback_loop e top_k (word # words) tags seen
                   = fallback_loop e top_k words (tags @ [word]) (insert word seen)"
        using True by simp
      have "length (fallback_loop e top_k words (tags @ [word]) (insert word seen))
              \<le> max top_k (Suc (length (tags @ [word])))"
        using Cons.IH [OF rest t1 t2 t3] by simp
      then have "length (fallback_loop e top_k words (tags @ [word]) (insert word seen))
              \<le> max top_k (Suc (length tags))"
        using go by simp
      then show ?thesis unfolding r using Cons.IH [OF rest t1 t2 t3] by simp
    qed
  qed
qed

lemma keyword_loop_tags:
  "list_all well_formed_tag tags \<Longrightarrow> distinct tags \<Longrightarrow> set tags \<subseteq> seen \<Longrightarrow>
     list_all well_formed_tag (keyword_loop e top_k kws tags seen)
     \<and> distinct (keyword_loop e top_k kws tags seen)
     \<and> length (keyword_loop e top_k kws tags seen) \<le> max top_k (Suc (length tags))"
proof (induction kws arbitrary: tags seen)
  case Nil
  then show ?case by simp
next
  case (Cons p rest)
  obtain kw0 score where p: "p = (kw0, score)" by (cases p)
  let ?kw = "py_strip (py_lower kw0)"
  show ?case
  proof (cases "?kw \<in> seen \<or> \<not> is_good_single_word e ?kw")
    case True
    then have "keyword_loop e top_k (p # rest) tags seen = keyword_loop e top_k rest tags seen"
      unfolding p by (simp add: Let_def)
    then show ?thesis using Cons.IH [OF Cons.prems(1) Cons.prems(2) Cons.prems(3)] by simp
  next
    case False
    then have good: "is_good_single_word e ?kw" and new: "?kw \<notin> seen" by simp_all
    have one: "length (py_split ?kw) = 1" using is_good_facts [OF good] by simp
    have ns: "\<forall>c \<in> set ?kw. \<not> py_isspace c" using one by (rule stripped_single_word)
    have lo: "py_lower ?kw = ?kw" using set_py_strip [of "py_lower kw0"] by (rule lower_fixed)
    have wf: "well_formed_tag ?kw" using good ns lo by (rule good_word_well_formed)
    have t1: "list_all well_formed_tag (tags @ [?kw])" using wf Cons.prems(1) by simp
    have t2: "distinct (tags @ [?kw])" using new Cons.prems(2) Cons.prems(3) by auto
    have t3: "set (tags @ [?kw]) \<subseteq> insert ?kw seen" using Cons.prems(3) by auto
    show ?thesis
    proof (cases "length (tags @ [?kw]) \<ge> top_k")
      case stop: True
      then have "keyword_loop e top_k (p # rest) tags seen = tags @ [?kw]"
        unfolding p using False by (simp add: Let_def)
      then show ?thesis using t1 t2 by simp
    next
      case go: False
      then have r: "keyword_loop e top_k (p # rest) tags seen
                   = keyword_loop e top_k rest (tags @ [?kw]) (insert ?kw seen)"
        unfolding p using False by (simp add: Let_def)
      have "length (keyword_loop e top_k rest (tags @ [?kw]) (insert ?kw seen))
              \<le> max top_k (Suc (length (tags @ [?kw])))"
        using Cons.IH [OF t1 t2 t3] by simp
      then have "length (keyword_loop e top_k rest (tags @ [?kw]) (insert ?kw seen))
              \<le> max top_k (Suc (length tags))"
        using go by simp
      then show ?thesis unfolding r using Cons.IH [OF t1 t2 t3] by simp
    qed
  qed
qed

text \<open>
  The tags of \<open>extract_single_word_tags\<close>, for every \<open>top_k\<close> and on both paths: each is one
  word without whitespace, in lower case, longer than two characters and not a number;
  no tag occurs twice; and there are at most \<open>top_k\<close> of them when \<open>top_k\<close> is positive,
  at most one when it is zero.
\<close>

lemma tags_well_formed:
  "list_all well_formed_tag (extract_single_word_tags e title body top_k)
   \<and> distinct (extract_single_word_tags e title body top_k)
   \<and> length (extract_single_word_tags e title body top_k) \<le> max 1 top_k"
proof (cases "tag_ai_available e")
  case False
  let ?text = "clean_text (title @ '' '' @ body)"
  have words: "\<forall>w \<in> set (py_split ?text). (\<forall>c \<in> set w. \<not> py_isspace c) \<and> py_lower w = w"
  proof
    fix w assume w: "w \<in> set (py_split ?text)"
    have "set w \<subseteq> set ?text" using py_split_words [OF w] by simp
    also have "\<dots> \<subseteq> set (py_lower (filter (\<lambda>c. word_char c \<or> py_isspace c)
        (strip_tags (title @ '' '' @ body))))"
      unfolding clean_text_def by (rule set_py_strip)
    finally have "py_lower w = w" by (rule lower_fixed)
    then show "(\<forall>c \<in> set w. \<not> py_isspace c) \<and> py_lower w = w"
      using py_split_words [OF w] by simp
  qed
  have "extract_single_word_tags e title body top_k = fallback_loop e top_k (py_split ?text) [] {}"
    using False by (simp add: extract_single_word_tags_def extract_tags_fallback_def Let_def)
  then show ?thesis
    using fallback_loop_tags [OF words, of "[]" "{}" e top_k] by (simp add: max.commute)
next
  case True
  then have "extract_single_word_tags e title body top_k
      = keyword_loop e top_k (extract_keywords e (clean_text (title @ '' '' @ body)) (top_k + 20)) [] {}"
    by (simp add: extract_single_word_tags_def Let_def)
  then show ?thesis
    using keyword_loop_tags [of "[]" "{}" e top_k
        "extract_keywords e (clean_text (title @ '' '' @ body)) (top_k + 20)"]
    by (simp add: max.commute)
qed

text \<open>The equations that evaluate the tag extraction on the example data.\<close>

lemmas ev_tags = extract_single_word_tags_def extract_tags_fallback_def clean_text_def
  tag_closes_def py_strip_def py_lower_def lower_char_def py_split_def py_isspace_def
  is_good_single_word_def py_isdigit_def py_isalpha_def word_char_def is_alpha_char_def
  is_upper_char_def is_digit_char_def code_def env0_def env_ai_def Let_def

text \<open>
  Both loops test the length of the list only after they have appended a tag. With
  \<open>top_k = 0\<close>, a value that no caller passes (\<open>create_question\<close> and \<open>suggest_tags\<close> pass
  8, the defaults are 5 and 10), the first good word is returned.
\<close>

lemma top_k_zero_returns_a_tag:
  "extract_single_word_tags env0 ''sorting lists'' ''quickly'' 0 = [''sorting'']
   \<and> extract_single_word_tags env_ai ''sorting lists'' ''quickly'' 0 = [''sorting'']"
  by (simp add: ev_tags)

text \<open>
  Claim C5 (single-word tags). For a positive \<open>top_k\<close>, on the fallback path and on the
  path of the keyword model, every tag that \<open>extract_single_word_tags\<close> returns is one word
  without whitespace, in lower case, longer than two characters and not a number; no tag
  occurs twice; there are at most \<open>top_k\<close> tags; and these are the tags that
  \<open>auto_tag_question\<close> stores.
\<close>

theorem single_word_tags:
  assumes "0 < top_k"
  shows "list_all well_formed_tag (extract_single_word_tags e title body top_k)
       \<and> distinct (extract_single_word_tags e title body top_k)
       \<and> length (extract_single_word_tags e title body top_k) \<le> top_k
       \<and> tq_tags (auto_tag_question e title body top_k)
           = extract_single_word_tags e title body top_k"
proof -
  have "max 1 top_k = top_k" using assms by simp
  then show ?thesis
    using tags_well_formed [of e title body top_k] by (simp add: auto_tag_question_def)
qed

theorem single_word_tags_witness:
  "(0 :: nat) < 2
   \<and> extract_single_word_tags env0 ''Sorting <b>lists</b>, 2 lists!'' ''Quickly'' 2
       = [''sorting'', ''lists'']
   \<and> extract_single_word_tags env_ai ''Sorting lists'' ''quickly'' 2 = [''sorting'', ''lists'']
   \<and> list_all well_formed_tag
        (extract_single_word_tags env0 ''Sorting <b>lists</b>, 2 lists!'' ''Quickly'' 2)
   \<and> distinct (extract_single_word_tags env0 ''Sorting <b>lists</b>, 2 lists!'' ''Quickly'' 2)
   \<and> length (extract_single_word_tags env0 ''Sorting <b>lists</b>, 2 lists!'' ''Quickly'' 2) \<le> 2
   \<and> tq_tags (auto_tag_question env0 ''Sorting <b>lists</b>, 2 lists!'' ''Quickly'' 2)
       = [''sorting'', ''lists'']"
proof -
  have p: "(0 :: nat) < 2" by simp
  have t: "extract_single_word_tags env0 ''Sorting <b>lists</b>, 2 lists!'' ''Quickly'' 2
       = [''sorting'', ''lists'']"
    by code_simp
  have t': "extract_single_word_tags env_ai ''Sorting lists'' ''quickly'' 2
       = [''sorting'', ''lists'']"
    by (simp add: ev_tags)
  show ?thesis
    using p t t'
      single_word_tags [OF p, of env0 "''Sorting <b>lists</b>, 2 lists!''" "''Quickly''"]
    by simp
qed

end
